theory Spec2Isabelle
  imports Main
begin

section \<open>Values exchanged with the oracle and the store\<close>

text \<open>
  The oracle's reply is text handed to \<^verbatim>\<open>JSON.parse\<close>. A parsed value is one of the six
  JSON shapes. An object is the list of its own properties in enumeration order (the
  order \<^verbatim>\<open>Object.values\<close> follows), keys pairwise different. Numbers are kept as
  integers: no part of the program computes with them.
\<close>

datatype json =
    JNull
  | JBool bool
  | JNum int
  | JStr string
  | JArr "json list"
  | JObj "(string \<times> json) list"

text \<open>What reading a property yields: \<^verbatim>\<open>undefined\<close> when the property is absent.\<close>

datatype jsval = Undefined | Val json

text \<open>The error an \<^verbatim>\<open>openai\<close> call rejects with: \<^verbatim>\<open>err.status\<close> may be absent.\<close>

datatype api_error = ApiError (status: "int option") (message: string)

text \<open>
  Everything \<^verbatim>\<open>getAccessStatuses\<close> and \<^verbatim>\<open>upsertRecords\<close> can throw: the oracle's
  own error once \<^verbatim>\<open>withRetry\<close> gives up, the three \<^verbatim>\<open>new Error(...)\<close> of the reply
  handling, and the \<^verbatim>\<open>TypeError\<close> JavaScript raises when \<^verbatim>\<open>null\<close> is destructured or
  passed to \<^verbatim>\<open>Object.values\<close>.
\<close>

datatype error =
    OracleError api_error
  | EmptyResponse
  | ParseFailure string
  | ExpectedArray json
  | TypeError

section \<open>withRetry\<close>

text \<open>
  \<^verbatim>\<open>err.status === 429 || (err.status && err.status >= 500)\<close>: an absent status and
  the status \<open>0\<close> are falsy.
\<close>

definition retryable :: "api_error \<Rightarrow> bool" where
  "retryable err =
     (status err = Some 429 \<or>
      (case status err of None \<Rightarrow> False | Some s \<Rightarrow> s \<noteq> 0 \<and> s \<ge> 500))"

text \<open>\<^verbatim>\<open>Math.min(2000 * 2 ** (attempt - 1), 30000)\<close>, in milliseconds.\<close>

definition backoff_delay :: "nat \<Rightarrow> nat" where
  "backoff_delay attempt = min (2000 * 2 ^ (attempt - 1)) 30000"

text \<open>
  What a call of \<^verbatim>\<open>withRetry\<close> leaves behind: the value it returns or the error it
  throws, the delays it slept in order, and how many times it invoked \<^verbatim>\<open>fn\<close>.
\<close>

record 'a retry_result =
  outcome :: "api_error + 'a"
  delays :: "nat list"
  calls :: nat

text \<open>
  The unit of work is a script: \<open>fn k\<close> is what its \<open>k\<close>-th invocation (from 0) does,
  \<open>Inr v\<close> for a value and \<open>Inl err\<close> for a throw. \<open>attempt\<close> is the loop's own
  counter; \<open>slept\<close> and \<open>invoked\<close> record the effects so far.
\<close>

function withRetry_loop ::
  "(nat \<Rightarrow> api_error + 'a) \<Rightarrow> nat \<Rightarrow> nat \<Rightarrow> nat list \<Rightarrow> nat \<Rightarrow> 'a retry_result" where
  "withRetry_loop fn maxRetries attempt slept invoked =
     (case fn invoked of
        Inr v \<Rightarrow> \<lparr>outcome = Inr v, delays = slept, calls = Suc invoked\<rparr>
      | Inl err \<Rightarrow>
          (if attempt + 1 > maxRetries
           then \<lparr>outcome = Inl err, delays = slept, calls = Suc invoked\<rparr>
           else if retryable err
           then withRetry_loop fn maxRetries (attempt + 1)
                  (slept @ [backoff_delay (attempt + 1)]) (Suc invoked)
           else \<lparr>outcome = Inl err, delays = slept, calls = Suc invoked\<rparr>))"
  by pat_completeness auto
termination
  by (relation "measure (\<lambda>(fn, maxRetries, attempt, slept, invoked). Suc maxRetries - attempt)") auto

definition withRetry :: "(nat \<Rightarrow> api_error + 'a) \<Rightarrow> nat \<Rightarrow> 'a retry_result" where
  "withRetry fn maxRetries = withRetry_loop fn maxRetries 0 [] 0"

section \<open>LLMSource.getAccessStatuses\<close>

definition isArray :: "json \<Rightarrow> bool" where
  "isArray v = (case v of JArr xs \<Rightarrow> True | _ \<Rightarrow> False)"

text \<open>
  \<^verbatim>\<open>Object.values\<close>: the property values of an object, the elements of an array, the
  characters of a string, nothing for a number or a boolean, and a \<^verbatim>\<open>TypeError\<close> for
  \<^verbatim>\<open>null\<close>.
\<close>

definition Object_values :: "json \<Rightarrow> error + json list" where
  "Object_values v =
     (case v of
        JNull \<Rightarrow> Inl TypeError
      | JBool b \<Rightarrow> Inr []
      | JNum n \<Rightarrow> Inr []
      | JStr s \<Rightarrow> Inr (map (\<lambda>c. JStr [c]) s)
      | JArr xs \<Rightarrow> Inr xs
      | JObj kvs \<Rightarrow> Inr (map snd kvs))"

text \<open>
  Lines 90 to 109: from \<^verbatim>\<open>response.choices[0]?.message?.content\<close> (absent is \<open>None\<close>) to
  the returned array. \<^verbatim>\<open>JSON.parse\<close> is a parameter: \<open>None\<close> where it throws.
  \<^verbatim>\<open>!raw\<close> holds for an absent content and for the empty string.
\<close>

definition handle_reply :: "(string \<Rightarrow> json option) \<Rightarrow> string option \<Rightarrow> error + json list" where
  "handle_reply JSON_parse content =
     (case content of
        None \<Rightarrow> Inl EmptyResponse
      | Some raw \<Rightarrow>
          if raw = [] then Inl EmptyResponse
          else
            (case JSON_parse raw of
               None \<Rightarrow> Inl (ParseFailure (take 200 raw))
             | Some parsed \<Rightarrow>
                 (case parsed of
                    JArr xs \<Rightarrow> Inr xs
                  | _ \<Rightarrow>
                      (case Object_values parsed of
                         Inl e \<Rightarrow> Inl e
                       | Inr vs \<Rightarrow>
                           (case find isArray vs of
                              Some (JArr xs) \<Rightarrow> Inr xs
                            | _ \<Rightarrow> Inl (ExpectedArray parsed))))))"

text \<open>
  \<open>create substances countries k\<close> is what the \<open>k\<close>-th call of
  \<^verbatim>\<open>openai.chat.completions.create\<close> for this prompt does: it throws, or it returns a
  response whose content is kept. \<^verbatim>\<open>withRetry\<close> is called with its default of 5.
\<close>

definition getAccessStatuses ::
  "(string \<Rightarrow> json option) \<Rightarrow> (string list \<Rightarrow> string list \<Rightarrow> nat \<Rightarrow> api_error + string option) \<Rightarrow>
   string list \<Rightarrow> string list \<Rightarrow> error + json list" where
  "getAccessStatuses JSON_parse create substances countries =
     (case outcome (withRetry (create substances countries) 5) of
        Inl err \<Rightarrow> Inl (OracleError err)
      | Inr content \<Rightarrow> handle_reply JSON_parse content)"

section \<open>The table psychedelic_access\<close>

text \<open>
  The hosted table is not part of the repository. It is modelled as the list of its
  rows. \<open>substance\<close>, \<open>country_code\<close> and \<open>access_status\<close> are text columns: a column
  holds a text or is NULL (\<open>None\<close>), and \<^verbatim>\<open>select("*")\<close> returns NULL as \<^verbatim>\<open>null\<close>.
\<close>

record row =
  row_id :: nat
  substance :: "string option"
  country_code :: "string option"
  access_status :: "string option"
  updated_at :: nat

definition read_column :: "string option \<Rightarrow> jsval" where
  "read_column x = (case x of None \<Rightarrow> Val JNull | Some t \<Rightarrow> Val (JStr t))"

text \<open>
  What the client puts on the wire. \<^verbatim>\<open>.eq(column, value)\<close> appends the filter
  \<^verbatim>\<open>eq.${value}\<close>: the text \<^verbatim>\<open>undefined\<close> or \<^verbatim>\<open>null\<close> for these two values, a string as it
  is. The body of an insert or update is \<^verbatim>\<open>JSON.stringify\<close> of the object, which leaves
  out a property whose value is \<^verbatim>\<open>undefined\<close> (\<open>None\<close>); \<^verbatim>\<open>null\<close> is sent and stored as
  NULL (\<open>Some None\<close>), a string is stored as it is. How a boolean, a number, an array or
  an object reads as filter text, and what text a column holds for it, is not spelled out:
  \<open>render\<close> stands for it.
\<close>

definition eq_text :: "(json \<Rightarrow> string) \<Rightarrow> jsval \<Rightarrow> string" where
  "eq_text render v =
     (case v of
        Undefined \<Rightarrow> ''undefined''
      | Val JNull \<Rightarrow> ''null''
      | Val (JStr t) \<Rightarrow> t
      | Val j \<Rightarrow> render j)"

definition body_property :: "(json \<Rightarrow> string) \<Rightarrow> jsval \<Rightarrow> string option option" where
  "body_property render v =
     (case v of
        Undefined \<Rightarrow> None
      | Val JNull \<Rightarrow> Some None
      | Val (JStr t) \<Rightarrow> Some (Some t)
      | Val j \<Rightarrow> Some (Some (render j)))"

text \<open>
  The store's side. A filter \<^verbatim>\<open>eq.t\<close> holds for a column whose text is \<open>t\<close>, never for
  NULL. Each call can fail for reasons of the store's own (\<open>fault\<close>, the message of the
  error it then returns); \<^verbatim>\<open>maybeSingle\<close> also answers with an error when more than one
  row matches. An insert leaves a column NULL when the body has no property for it; an
  update changes only the columns the body names.
\<close>

definition matching :: "row list \<Rightarrow> string \<Rightarrow> string \<Rightarrow> row list" where
  "matching rows s c = filter (\<lambda>r. substance r = Some s \<and> country_code r = Some c) rows"

definition multiple_rows :: string where
  "multiple_rows = ''JSON object requested, multiple (or no) rows returned''"

definition select_maybeSingle :: "string option \<Rightarrow> row list \<Rightarrow> string \<Rightarrow> string \<Rightarrow> string + row option" where
  "select_maybeSingle fault rows s c =
     (case fault of
        Some m \<Rightarrow> Inl m
      | None \<Rightarrow>
          (case matching rows s c of
             [] \<Rightarrow> Inr None
           | [r] \<Rightarrow> Inr (Some r)
           | _ \<Rightarrow> Inl multiple_rows))"

definition fresh_id :: "row list \<Rightarrow> nat" where
  "fresh_id rows = Suc (foldr max (map row_id rows) 0)"

definition sent_or_null :: "string option option \<Rightarrow> string option" where
  "sent_or_null p = (case p of None \<Rightarrow> None | Some x \<Rightarrow> x)"

definition insert_row ::
  "string option \<Rightarrow> row list \<Rightarrow> string option option \<Rightarrow> string option option \<Rightarrow>
   string option option \<Rightarrow> nat \<Rightarrow> string option \<times> row list" where
  "insert_row fault rows s c a t =
     (case fault of
        Some m \<Rightarrow> (Some m, rows)
      | None \<Rightarrow>
          (None, rows @ [\<lparr>row_id = fresh_id rows, substance = sent_or_null s,
                          country_code = sent_or_null c, access_status = sent_or_null a,
                          updated_at = t\<rparr>]))"

definition update_by_id ::
  "string option \<Rightarrow> row list \<Rightarrow> nat \<Rightarrow> string option option \<Rightarrow> nat \<Rightarrow> string option \<times> row list" where
  "update_by_id fault rows i a t =
     (case fault of
        Some m \<Rightarrow> (Some m, rows)
      | None \<Rightarrow>
          (None, map (\<lambda>r. if row_id r = i
                           then (case a of
                                   None \<Rightarrow> r\<lparr>updated_at := t\<rparr>
                                 | Some x \<Rightarrow> r\<lparr>access_status := x, updated_at := t\<rparr>)
                           else r) rows))"

section \<open>upsertRecords\<close>

text \<open>
  \<^verbatim>\<open>const { substance, country_code, access_status } = rec\<close>: a \<^verbatim>\<open>TypeError\<close> for
  \<^verbatim>\<open>null\<close>, the three properties of an object, and \<^verbatim>\<open>undefined\<close> three times for
  any other value.
\<close>

definition get_property :: "(string \<times> json) list \<Rightarrow> string \<Rightarrow> jsval" where
  "get_property kvs k = (case map_of kvs k of None \<Rightarrow> Undefined | Some v \<Rightarrow> Val v)"

definition destructure :: "json \<Rightarrow> error + (jsval \<times> jsval \<times> jsval)" where
  "destructure rec =
     (case rec of
        JNull \<Rightarrow> Inl TypeError
      | JObj kvs \<Rightarrow> Inr (get_property kvs ''substance'', get_property kvs ''country_code'',
                     get_property kvs ''access_status'')
      | _ \<Rightarrow> Inr (Undefined, Undefined, Undefined))"

text \<open>
  \<^verbatim>\<open>x !== y\<close>: values of different types differ, primitives are compared by value, and
  an array or object read from the store is never the one the oracle's reply holds.
\<close>

fun strict_neq :: "jsval \<Rightarrow> jsval \<Rightarrow> bool" where
  "strict_neq Undefined Undefined = False"
| "strict_neq (Val JNull) (Val JNull) = False"
| "strict_neq (Val (JBool a)) (Val (JBool b)) = (a \<noteq> b)"
| "strict_neq (Val (JNum a)) (Val (JNum b)) = (a \<noteq> b)"
| "strict_neq (Val (JStr a)) (Val (JStr b)) = (a \<noteq> b)"
| "strict_neq _ _ = True"

text \<open>The lines \<^verbatim>\<open>logWithTimestamp\<close> writes for a record, without their timestamps.\<close>

datatype log_entry =
    FetchError jsval jsval string
  | InsertError jsval jsval string
  | Inserted jsval jsval jsval
  | UpdateError jsval jsval string
  | Updated jsval jsval jsval jsval
  | Skipped jsval jsval

text \<open>
  What the environment decides while one record is processed: whether the lookup and
  the write fail, what \<^verbatim>\<open>new Date()\<close> reads, and the texts of values that are neither
  strings nor \<^verbatim>\<open>null\<close> nor \<^verbatim>\<open>undefined\<close>, in a filter and in a column.
\<close>

record step_env =
  fetch_fault :: "string option"
  write_fault :: "string option"
  clock :: nat
  filter_text :: "json \<Rightarrow> string"
  column_text :: "json \<Rightarrow> string"

text \<open>The lookup of lines 118 to 123.\<close>

definition lookup :: "step_env \<Rightarrow> row list \<Rightarrow> jsval \<Rightarrow> jsval \<Rightarrow> string + row option" where
  "lookup e rows s c =
     select_maybeSingle (fetch_fault e) rows (eq_text (filter_text e) s) (eq_text (filter_text e) c)"

text \<open>The body of the loop, lines 118 to 179, after the destructuring.\<close>

definition upsert_one :: "step_env \<Rightarrow> row list \<Rightarrow> jsval \<Rightarrow> jsval \<Rightarrow> jsval \<Rightarrow> row list \<times> log_entry" where
  "upsert_one e rows s c a =
     (case lookup e rows s c of
        Inl m \<Rightarrow> (rows, FetchError s c m)
      | Inr None \<Rightarrow>
          (case insert_row (write_fault e) rows (body_property (column_text e) s)
                  (body_property (column_text e) c) (body_property (column_text e) a) (clock e) of
             (Some m, rows') \<Rightarrow> (rows', InsertError s c m)
           | (None, rows') \<Rightarrow> (rows', Inserted s c a))
      | Inr (Some existing) \<Rightarrow>
          if strict_neq (read_column (access_status existing)) a
          then
            (case update_by_id (write_fault e) rows (row_id existing)
                    (body_property (column_text e) a) (clock e) of
               (Some m, rows') \<Rightarrow> (rows', UpdateError s c m)
             | (None, rows') \<Rightarrow> (rows', Updated s c (read_column (access_status existing)) a))
          else (rows, Skipped s c))"

text \<open>
  \<open>env k\<close> is the environment of the \<open>k\<close>-th record. The result is the table after
  the run, the log, and the error thrown if the run stopped on one.
\<close>

fun upsertRecords ::
  "(nat \<Rightarrow> step_env) \<Rightarrow> row list \<Rightarrow> json list \<Rightarrow> row list \<times> log_entry list \<times> error option" where
  "upsertRecords env rows [] = (rows, [], None)"
| "upsertRecords env rows (rec # records) =
     (case destructure rec of
        Inl err \<Rightarrow> (rows, [], Some err)
      | Inr (s, c, a) \<Rightarrow>
          (case upsert_one (env 0) rows s c a of
             (rows', entry) \<Rightarrow>
               (case upsertRecords (\<lambda>k. env (Suc k)) rows' records of
                  (rows'', entries, thrown) \<Rightarrow> (rows'', entry # entries, thrown))))"

section \<open>main\<close>

definition SUBSTANCES :: "string list" where
  "SUBSTANCES = [''Ketamine'', ''MDMA'', ''Psilocybin'', ''Lysergic Acid Diethylamide'']"

definition COUNTRIES :: "string list" where
  "COUNTRIES =
    [''AF'',''AL'',''DZ'',''AD'',''AO'',''AG'',''AR'',''AM'',''AU'',''AT'',''AZ'',''BS'',''BH'',''BD'',''BB'',''BY'',''BE'',''BZ'',''BJ'',''BT'',''BO'',''BA'',''BW'',''BR'',''BN'',''BG'',''BF'',''BI'',
     ''CV'',''KH'',''CM'',''CA'',''CF'',''TD'',''CL'',''CN'',''CO'',''KM'',''CD'',''CG'',''CR'',''CI'',''HR'',''CU'',''CY'',''CZ'',''DK'',''DJ'',''DM'',''DO'',''EC'',''EG'',''SV'',''GQ'',''ER'',''EE'',''SZ'',
     ''ET'',''FJ'',''FI'',''FR'',''GA'',''GM'',''GE'',''DE'',''GH'',''GR'',''GD'',''GT'',''GN'',''GW'',''GY'',''HT'',''HN'',''HU'',''IS'',''IN'',''ID'',''IR'',''IQ'',''IE'',''IL'',''IT'',''JM'',''JP'',''JO'',
     ''KZ'',''KE'',''KI'',''KP'',''KR'',''KW'',''KG'',''LA'',''LV'',''LB'',''LS'',''LR'',''LY'',''LI'',''LT'',''LU'',''MG'',''MW'',''MY'',''MV'',''ML'',''MT'',''MH'',''MR'',''MU'',''MX'',''FM'',''MD'',''MC'',
     ''MN'',''ME'',''MA'',''MZ'',''MM'',''NA'',''NR'',''NP'',''NL'',''NZ'',''NI'',''NE'',''NG'',''MK'',''NO'',''OM'',''PK'',''PW'',''PS'',''PA'',''PG'',''PY'',''PE'',''PH'',''PL'',''PT'',''QA'',''RO'',''RU'',
     ''RW'',''KN'',''LC'',''VC'',''WS'',''SM'',''ST'',''SA'',''SN'',''RS'',''SC'',''SL'',''SG'',''SK'',''SI'',''SB'',''SO'',''ZA'',''SS'',''ES'',''LK'',''SD'',''SR'',''SE'',''CH'',''SY'',''TJ'',''TZ'',''TH'',
     ''TL'',''TG'',''TO'',''TT'',''TN'',''TR'',''TM'',''TV'',''UG'',''UA'',''AE'',''GB'',''US'',''UY'',''UZ'',''VU'',''VE'',''VN'',''YE'',''ZM'',''ZW'']"

text \<open>\<^verbatim>\<open>xs.slice(i, j)\<close> for \<open>0 \<le> i\<close> and \<open>0 \<le> j\<close>.\<close>

definition slice :: "'a list \<Rightarrow> nat \<Rightarrow> nat \<Rightarrow> 'a list" where
  "slice xs i j = take (j - i) (drop i xs)"

text \<open>
  The loop of lines 191 to 200. \<open>query\<close> is \<^verbatim>\<open>llm.getAccessStatuses(SUBSTANCES, _)\<close>;
  \<open>dispatched\<close> lists the batches queried so far, one per \<^verbatim>\<open>[LLM] Querying\<close> log line.
  A throw of the query leaves the loop with \<open>Inl\<close>. The pause of 2000 ms after each
  batch changes no value and is left out. With a batch size of 0 the loop does not end,
  which is the value \<open>None\<close>.
\<close>

partial_function (option) main_loop ::
  "(string list \<Rightarrow> error + json list) \<Rightarrow> string list \<Rightarrow> nat \<Rightarrow> nat \<Rightarrow> json list \<Rightarrow> string list list \<Rightarrow>
   ((error + json list) \<times> string list list) option" where
  "main_loop query countries batchSize i allResults dispatched =
     (if i < length countries
      then
        (case query (slice countries i (i + batchSize)) of
           Inl err \<Rightarrow> Some (Inl err, dispatched @ [slice countries i (i + batchSize)])
         | Inr results \<Rightarrow>
             main_loop query countries batchSize (i + batchSize) (allResults @ results)
               (dispatched @ [slice countries i (i + batchSize)]))
      else Some (Inr allResults, dispatched))"

text \<open>
  How a run ends: \<open>Finished\<close> after \<^verbatim>\<open>=== Finished ===\<close>, or \<open>Fatal\<close> when
  \<^verbatim>\<open>main().catch\<close> logs the error and exits with status 1.
\<close>

datatype run_outcome = Finished | Fatal error

text \<open>
  \<^verbatim>\<open>main\<close> with the catalogs and the batch size as parameters. A run yields its
  outcome, the table it leaves, the reconciliation log and the batches it queried.
\<close>

definition main_with ::
  "(string \<Rightarrow> json option) \<Rightarrow> (string list \<Rightarrow> string list \<Rightarrow> nat \<Rightarrow> api_error + string option) \<Rightarrow>
   (nat \<Rightarrow> step_env) \<Rightarrow> string list \<Rightarrow> string list \<Rightarrow> nat \<Rightarrow> row list \<Rightarrow>
   (run_outcome \<times> row list \<times> log_entry list \<times> string list list) option" where
  "main_with JSON_parse create env substances countries batchSize rows =
     (case main_loop (getAccessStatuses JSON_parse create substances) countries batchSize 0 [] [] of
        None \<Rightarrow> None
      | Some (Inl err, dispatched) \<Rightarrow> Some (Fatal err, rows, [], dispatched)
      | Some (Inr allResults, dispatched) \<Rightarrow>
          (case upsertRecords env rows allResults of
             (rows', entries, None) \<Rightarrow> Some (Finished, rows', entries, dispatched)
           | (rows', entries, Some err) \<Rightarrow> Some (Fatal err, rows', entries, dispatched)))"

definition main ::
  "(string \<Rightarrow> json option) \<Rightarrow> (string list \<Rightarrow> string list \<Rightarrow> nat \<Rightarrow> api_error + string option) \<Rightarrow>
   (nat \<Rightarrow> step_env) \<Rightarrow> row list \<Rightarrow>
   (run_outcome \<times> row list \<times> log_entry list \<times> string list list) option" where
  "main JSON_parse create env rows = main_with JSON_parse create env SUBSTANCES COUNTRIES 25 rows"

section \<open>Notions used to state the properties\<close>

text \<open>
  The key and the status \<^verbatim>\<open>upsertRecords\<close> reads from a record; the three fields of a
  record when all three are strings; the key of a row; and a key under which the table
  holds one row, with a given status.
\<close>

definition key_of :: "json \<Rightarrow> jsval \<times> jsval" where
  "key_of rec = (case destructure rec of Inr (s, c, a) \<Rightarrow> (s, c) | Inl err \<Rightarrow> (Undefined, Undefined))"

definition status_of :: "json \<Rightarrow> jsval" where
  "status_of rec = (case destructure rec of Inr (s, c, a) \<Rightarrow> a | Inl err \<Rightarrow> Undefined)"

definition string_fields :: "json \<Rightarrow> (string \<times> string \<times> string) option" where
  "string_fields rec =
     (case destructure rec of
        Inr (Val (JStr s), Val (JStr c), Val (JStr a)) \<Rightarrow> Some (s, c, a)
      | _ \<Rightarrow> None)"

definition row_key :: "row \<Rightarrow> string option \<times> string option" where
  "row_key r = (substance r, country_code r)"

definition settled :: "row list \<Rightarrow> string \<Rightarrow> string \<Rightarrow> string \<Rightarrow> bool" where
  "settled rows s c a =
     (case matching rows s c of [r] \<Rightarrow> access_status r = Some a | _ \<Rightarrow> False)"

section \<open>Sample data\<close>

text \<open>
  Two replies of the oracle holding the same record, as a bare array and wrapped in an
  object, and what \<^verbatim>\<open>JSON.parse\<close> returns for them, for the texts \<^verbatim>\<open>null\<close> and
  \<^verbatim>\<open>{}\<close>, and for no other text.
\<close>

definition ketamine_us_banned :: json where
  "ketamine_us_banned =
     JObj [(''substance'', JStr ''Ketamine''), (''country_code'', JStr ''US''),
           (''access_status'', JStr ''Banned'')]"

definition bare_reply :: string where
  \<open>bare_reply = ''[{"substance":"Ketamine","country_code":"US","access_status":"Banned"}]''\<close>

definition wrapped_reply :: string where
  \<open>wrapped_reply = ''{"results":[{"substance":"Ketamine","country_code":"US","access_status":"Banned"}]}''\<close>

definition sample_parse :: "string \<Rightarrow> json option" where
  "sample_parse text =
     (if text = bare_reply then Some (JArr [ketamine_us_banned])
      else if text = wrapped_reply then Some (JObj [(''results'', JArr [ketamine_us_banned])])
      else if text = ''null'' then Some JNull
      else if text = ''{}'' then Some (JObj [])
      else None)"

text \<open>
  A store that never fails, its clock advancing with each record. The samples hold
  strings only, so the text of other values is never asked for.
\<close>

definition no_text :: "json \<Rightarrow> string" where
  "no_text j = []"

definition no_faults :: "nat \<Rightarrow> step_env" where
  "no_faults k =
     \<lparr>fetch_fault = None, write_fault = None, clock = 1000 + k,
      filter_text = no_text, column_text = no_text\<rparr>"

text \<open>More records, the rows they become, stores that fail once, and oracles.\<close>

definition mdma_ca_trials :: json where
  "mdma_ca_trials =
     JObj [(''substance'', JStr ''MDMA''), (''country_code'', JStr ''CA''),
           (''access_status'', JStr ''Limited Access Trials'')]"

definition ketamine_us_approved :: json where
  "ketamine_us_approved =
     JObj [(''substance'', JStr ''Ketamine''), (''country_code'', JStr ''US''),
           (''access_status'', JStr ''Approved Medical Use'')]"

definition us_banned_no_subject :: json where
  "us_banned_no_subject = JObj [(''country_code'', JStr ''US''), (''access_status'', JStr ''Banned'')]"

definition ketamine_banned_no_scope :: json where
  "ketamine_banned_no_scope = JObj [(''substance'', JStr ''Ketamine''), (''access_status'', JStr ''Banned'')]"

definition ketamine_us_no_status :: json where
  "ketamine_us_no_status = JObj [(''substance'', JStr ''Ketamine''), (''country_code'', JStr ''US'')]"

definition ketamine_us_row :: "string \<Rightarrow> nat \<Rightarrow> row" where
  "ketamine_us_row a t =
     \<lparr>row_id = 1, substance = Some ''Ketamine'', country_code = Some ''US'',
      access_status = Some a, updated_at = t\<rparr>"

definition mdma_ca_row :: row where
  "mdma_ca_row =
     \<lparr>row_id = 2, substance = Some ''MDMA'', country_code = Some ''CA'',
      access_status = Some ''Limited Access Trials'', updated_at = 1001\<rparr>"

definition fetch_fails_at :: "nat \<Rightarrow> nat \<Rightarrow> step_env" where
  "fetch_fails_at j k =
     (if k = j then (no_faults k)\<lparr>fetch_fault := Some ''fetch failed''\<rparr> else no_faults k)"

definition write_fails_at :: "nat \<Rightarrow> nat \<Rightarrow> step_env" where
  "write_fails_at j k =
     (if k = j then (no_faults k)\<lparr>write_fault := Some ''write failed''\<rparr> else no_faults k)"

definition reply_with :: "string \<Rightarrow> string list \<Rightarrow> string list \<Rightarrow> nat \<Rightarrow> api_error + string option" where
  "reply_with reply substances countries k = Inr (Some reply)"

definition rejects :: "string list \<Rightarrow> string list \<Rightarrow> string list \<Rightarrow> nat \<Rightarrow> api_error + string option" where
  "rejects batch substances countries k =
     (if countries = batch then Inl (ApiError (Some 400) ''bad request'') else Inr (Some bare_reply))"

lemmas sample_defs = ketamine_us_banned_def mdma_ca_trials_def ketamine_us_approved_def
  us_banned_no_subject_def ketamine_banned_no_scope_def ketamine_us_no_status_def
  ketamine_us_row_def mdma_ca_row_def no_faults_def fetch_fails_at_def write_fails_at_def

lemmas store_defs = upsert_one_def lookup_def select_maybeSingle_def matching_def insert_row_def
  update_by_id_def fresh_id_def destructure_def get_property_def eq_text_def body_property_def
  sent_or_null_def read_column_def

section \<open>Properties of withRetry\<close>

declare withRetry_loop.simps [simp del]

lemma withRetry_loop_success:
  "\<forall>j<n. \<exists>e. fn (invoked + j) = Inl e \<and> retryable e \<Longrightarrow> fn (invoked + n) = Inr v \<Longrightarrow>
   attempt + n \<le> maxRetries \<Longrightarrow>
   withRetry_loop fn maxRetries attempt slept invoked =
     \<lparr>outcome = Inr v, delays = slept @ map backoff_delay [attempt + 1..<attempt + n + 1],
      calls = invoked + n + 1\<rparr>"
proof (induction n arbitrary: attempt slept invoked)
  case 0
  then show ?case by (simp add: withRetry_loop.simps [of fn maxRetries attempt slept invoked])
next
  case (Suc n)
  from Suc.prems(1) obtain e where e: "fn invoked = Inl e" "retryable e"
    by (metis add.right_neutral zero_less_Suc)
  have step: "withRetry_loop fn maxRetries attempt slept invoked =
      withRetry_loop fn maxRetries (attempt + 1) (slept @ [backoff_delay (attempt + 1)]) (Suc invoked)"
    using e Suc.prems(3) by (simp add: withRetry_loop.simps [of fn maxRetries attempt slept invoked])
  have "\<forall>j<n. \<exists>e. fn (Suc invoked + j) = Inl e \<and> retryable e"
    using Suc.prems(1) by (metis Suc_less_eq add_Suc_shift)
  moreover have "fn (Suc invoked + n) = Inr v" using Suc.prems(2) by simp
  moreover have "attempt + 1 + n \<le> maxRetries" using Suc.prems(3) by simp
  ultimately have ih: "withRetry_loop fn maxRetries (attempt + 1) (slept @ [backoff_delay (attempt + 1)]) (Suc invoked) =
     \<lparr>outcome = Inr v, delays = (slept @ [backoff_delay (attempt + 1)]) @ map backoff_delay [attempt + 1 + 1..<attempt + 1 + n + 1],
      calls = Suc invoked + n + 1\<rparr>"
    by (rule Suc.IH)
  have "[attempt + 1..<attempt + Suc n + 1] = (attempt + 1) # [attempt + 1 + 1..<attempt + 1 + n + 1]"
    by (subst upt_rec) simp
  then show ?case using step ih by simp
qed

lemma withRetry_loop_exhaust:
  "\<forall>j\<le>n. \<exists>e. fn (invoked + j) = Inl e \<and> retryable e \<Longrightarrow> attempt + n = maxRetries \<Longrightarrow>
   withRetry_loop fn maxRetries attempt slept invoked =
     \<lparr>outcome = fn (invoked + n), delays = slept @ map backoff_delay [attempt + 1..<maxRetries + 1],
      calls = invoked + n + 1\<rparr>"
proof (induction n arbitrary: attempt slept invoked)
  case 0
  then obtain e where e: "fn invoked = Inl e" by auto
  show ?case using 0(2) e by (subst withRetry_loop.simps) simp
next
  case (Suc n)
  from Suc.prems(1) obtain e where e: "fn invoked = Inl e" "retryable e"
    by (metis add.right_neutral le0)
  have step: "withRetry_loop fn maxRetries attempt slept invoked =
      withRetry_loop fn maxRetries (attempt + 1) (slept @ [backoff_delay (attempt + 1)]) (Suc invoked)"
    using e Suc.prems(2) by (simp add: withRetry_loop.simps [of fn maxRetries attempt slept invoked])
  have "\<forall>j\<le>n. \<exists>e. fn (Suc invoked + j) = Inl e \<and> retryable e"
    using Suc.prems(1) by (metis Suc_le_mono add_Suc_shift)
  moreover have "attempt + 1 + n = maxRetries" using Suc.prems(2) by simp
  ultimately have ih: "withRetry_loop fn maxRetries (attempt + 1) (slept @ [backoff_delay (attempt + 1)]) (Suc invoked) =
     \<lparr>outcome = fn (Suc invoked + n), delays = (slept @ [backoff_delay (attempt + 1)]) @ map backoff_delay [attempt + 1 + 1..<maxRetries + 1],
      calls = Suc invoked + n + 1\<rparr>"
    by (rule Suc.IH)
  have "[attempt + 1..<maxRetries + 1] = (attempt + 1) # [attempt + 1 + 1..<maxRetries + 1]"
    using Suc.prems(2) by (subst upt_rec) simp
  then show ?case using step ih by simp
qed

lemma withRetry_loop_fatal:
  "fn invoked = Inl e \<Longrightarrow> \<not> retryable e \<Longrightarrow>
   withRetry_loop fn maxRetries attempt slept invoked =
     \<lparr>outcome = Inl e, delays = slept, calls = Suc invoked\<rparr>"
  by (simp add: withRetry_loop.simps [of fn maxRetries attempt slept invoked])

text \<open>
  Claim C4, as the code has it. A unit of work that throws a retryable error (status 429
  or at least 500) three times and then returns \<open>v\<close> makes \<^verbatim>\<open>withRetry\<close> return \<open>v\<close>
  after four invocations, having slept 2000, 4000 and 8000 ms (any \<open>maxRetries\<close> of at
  least 3, so also the default 5). A unit of work whose every invocation throws a
  retryable error is invoked \<open>maxRetries + 1\<close> times: \<open>maxRetries\<close> retries, each after a
  sleep of \<open>min (2000 * 2 ^ (attempt - 1)) 30000\<close> ms, and then the last error is thrown
  unchanged. An error that is not retryable on the first invocation is thrown at once,
  unchanged, with no sleep.
\<close>

theorem withRetry_backoff:
  "(3 \<le> maxRetries \<and> (\<forall>k<3. \<exists>e. fn k = Inl e \<and> retryable e) \<and> fn 3 = Inr v \<longrightarrow>
      withRetry fn maxRetries = \<lparr>outcome = Inr v, delays = [2000, 4000, 8000], calls = 4\<rparr>)
   \<and> ((\<forall>k\<le>maxRetries. \<exists>e. fn k = Inl e \<and> retryable e) \<longrightarrow>
      withRetry fn maxRetries =
        \<lparr>outcome = fn maxRetries, delays = map backoff_delay [1..<maxRetries + 1],
         calls = maxRetries + 1\<rparr>)
   \<and> (fn 0 = Inl e \<and> \<not> retryable e \<longrightarrow>
      withRetry fn maxRetries = \<lparr>outcome = Inl e, delays = [], calls = 1\<rparr>)"
proof (intro conjI impI)
  assume a: "3 \<le> maxRetries \<and> (\<forall>k<3. \<exists>e. fn k = Inl e \<and> retryable e) \<and> fn 3 = Inr v"
  have "withRetry_loop fn maxRetries 0 [] 0 =
     \<lparr>outcome = Inr v, delays = [] @ map backoff_delay [0 + 1..<0 + 3 + 1], calls = 0 + 3 + 1\<rparr>"
    by (rule withRetry_loop_success) (use a in auto)
  moreover have "map backoff_delay [0 + 1..<0 + 3 + 1] = [2000, 4000, 8000]"
    by (simp add: backoff_delay_def upt_conv_Cons)
  ultimately show "withRetry fn maxRetries = \<lparr>outcome = Inr v, delays = [2000, 4000, 8000], calls = 4\<rparr>"
    by (simp add: withRetry_def)
next
  assume a: "\<forall>k\<le>maxRetries. \<exists>e. fn k = Inl e \<and> retryable e"
  have "withRetry_loop fn maxRetries 0 [] 0 =
     \<lparr>outcome = fn (0 + maxRetries), delays = [] @ map backoff_delay [0 + 1..<maxRetries + 1],
      calls = 0 + maxRetries + 1\<rparr>"
    by (rule withRetry_loop_exhaust) (use a in auto)
  then show "withRetry fn maxRetries =
        \<lparr>outcome = fn maxRetries, delays = map backoff_delay [1..<maxRetries + 1],
         calls = maxRetries + 1\<rparr>"
    by (simp add: withRetry_def)
next
  assume "fn 0 = Inl e \<and> \<not> retryable e"
  then show "withRetry fn maxRetries = \<lparr>outcome = Inl e, delays = [], calls = 1\<rparr>"
    by (simp add: withRetry_def withRetry_loop_fatal)
qed

theorem withRetry_backoff_witness:
  "withRetry (\<lambda>k. if k < 3 then Inl (ApiError (Some 429) ''rate limited'') else Inr ''ok'') 5 =
     \<lparr>outcome = Inr ''ok'', delays = [2000, 4000, 8000], calls = 4\<rparr>
   \<and> withRetry (\<lambda>k. Inl (ApiError (Some 429) ''rate limited'') :: api_error + string) 5 =
     \<lparr>outcome = Inl (ApiError (Some 429) ''rate limited''),
      delays = [2000, 4000, 8000, 16000, 30000], calls = 6\<rparr>
   \<and> withRetry (\<lambda>k. Inl (ApiError (Some 400) ''bad request'') :: api_error + string) 5 =
     \<lparr>outcome = Inl (ApiError (Some 400) ''bad request''), delays = [], calls = 1\<rparr>"
proof (intro conjI)
  show "withRetry (\<lambda>k. if k < 3 then Inl (ApiError (Some 429) ''rate limited'') else Inr ''ok'') 5 =
     \<lparr>outcome = Inr ''ok'', delays = [2000, 4000, 8000], calls = 4\<rparr>"
    using withRetry_backoff [where maxRetries = 5 and v = "''ok''"
        and fn = "\<lambda>k. if k < 3 then Inl (ApiError (Some 429) ''rate limited'') else Inr ''ok''"]
    by (simp add: retryable_def)
  have five: "map backoff_delay [Suc 0..<6] = [2000, 4000, 8000, 16000, 30000]"
    by (simp add: upt_conv_Cons backoff_delay_def)
  show "withRetry (\<lambda>k. Inl (ApiError (Some 429) ''rate limited'') :: api_error + string) 5 =
     \<lparr>outcome = Inl (ApiError (Some 429) ''rate limited''),
      delays = [2000, 4000, 8000, 16000, 30000], calls = 6\<rparr>"
    using withRetry_backoff [where maxRetries = 5 and e = "ApiError (Some 429) ''rate limited''"
        and fn = "\<lambda>k. Inl (ApiError (Some 429) ''rate limited'') :: api_error + string"]
    by (simp add: retryable_def five)
  show "withRetry (\<lambda>k. Inl (ApiError (Some 400) ''bad request'') :: api_error + string) 5 =
     \<lparr>outcome = Inl (ApiError (Some 400) ''bad request''), delays = [], calls = 1\<rparr>"
    using withRetry_backoff [where maxRetries = 5 and e = "ApiError (Some 400) ''bad request''"
        and fn = "\<lambda>k. Inl (ApiError (Some 400) ''bad request'') :: api_error + string"]
    by (simp add: retryable_def)
qed

text \<open>
  The claim as it was stated fails: with the default \<open>maxRetries = 5\<close>, a unit of work
  that always throws a rate-limit error is invoked six times, not five, before the error
  is thrown.
\<close>

theorem withRetry_attempts_counterexample:
  "calls (withRetry (\<lambda>k. Inl (ApiError (Some 429) ''rate limited'') :: api_error + string) 5) = 6
   \<and> calls (withRetry (\<lambda>k. Inl (ApiError (Some 429) ''rate limited'') :: api_error + string) 5) \<noteq> 5"
  by (simp add: withRetry_def withRetry_loop.simps retryable_def)

section \<open>Properties of the reply handling\<close>

lemma getAccessStatuses_content:
  "outcome (withRetry (create substances countries) 5) = Inr content \<Longrightarrow>
   getAccessStatuses JSON_parse create substances countries = handle_reply JSON_parse content"
  by (simp add: getAccessStatuses_def)

lemma withRetry_first_call:
  "fn 0 = Inr v \<Longrightarrow> withRetry fn maxRetries = \<lparr>outcome = Inr v, delays = [], calls = 1\<rparr>"
  by (simp add: withRetry_def withRetry_loop.simps)

section \<open>Properties of the batch loop\<close>

lemma ceil_step:
  "0 < (B::nat) \<Longrightarrow> i < N \<Longrightarrow> (N - i + B - 1) div B = Suc ((N - (i + B) + B - 1) div B)"
proof (cases "N - i \<le> B")
  case True
  assume "0 < B" "i < N"
  then have "(N - i + B - 1) div B = 1"
    using True by (intro div_nat_eqI) auto
  moreover have "(N - (i + B) + B - 1) div B = 0"
    using True \<open>0 < B\<close> by simp
  ultimately show ?thesis by simp
next
  case False
  assume "0 < B" "i < N"
  have "N - i + B - 1 = (N - (i + B) + B - 1) + B"
    using False \<open>0 < B\<close> by simp
  then show ?thesis using \<open>0 < B\<close> by (metis div_add_self2 less_numeral_extra(3) Suc_eq_plus1)
qed

lemma main_loop_collects:
  assumes "0 < batchSize"
    and "\<forall>k. i + k * batchSize < length countries \<longrightarrow>
           (\<exists>results. query (slice countries (i + k * batchSize) (i + k * batchSize + batchSize)) = Inr results)"
  shows "main_loop query countries batchSize i allResults dispatched =
     Some (Inr (allResults @ concat (map (\<lambda>k. projr (query (slice countries (i + k * batchSize) (i + k * batchSize + batchSize))))
                  [0..<(length countries - i + batchSize - 1) div batchSize])),
           dispatched @ map (\<lambda>k. slice countries (i + k * batchSize) (i + k * batchSize + batchSize))
                  [0..<(length countries - i + batchSize - 1) div batchSize])"
  using assms(2)
proof (induction "length countries - i" arbitrary: i allResults dispatched rule: less_induct)
  case less
  show ?case
  proof (cases "i < length countries")
    case False
    then have "(length countries - i + batchSize - 1) div batchSize = 0"
      using assms(1) by simp
    then show ?thesis using False by (subst main_loop.simps) simp
  next
    case True
    from less.prems True obtain results where r: "query (slice countries i (i + batchSize)) = Inr results"
      by (metis add.right_neutral mult_zero_left)
    have step: "main_loop query countries batchSize i allResults dispatched =
        main_loop query countries batchSize (i + batchSize) (allResults @ results)
          (dispatched @ [slice countries i (i + batchSize)])"
      using True r by (subst main_loop.simps) simp
    have smaller: "length countries - (i + batchSize) < length countries - i"
      using True assms(1) by simp
    have rest: "\<forall>k. i + batchSize + k * batchSize < length countries \<longrightarrow>
           (\<exists>results. query (slice countries (i + batchSize + k * batchSize) (i + batchSize + k * batchSize + batchSize)) = Inr results)"
    proof (intro allI impI)
      fix k assume a: "i + batchSize + k * batchSize < length countries"
      have eq: "i + batchSize + k * batchSize = i + Suc k * batchSize" by simp
      from a have "i + Suc k * batchSize < length countries" unfolding eq .
      with less.prems have "\<exists>results. query (slice countries (i + Suc k * batchSize) (i + Suc k * batchSize + batchSize)) = Inr results"
        by blast
      then show "\<exists>results. query (slice countries (i + batchSize + k * batchSize) (i + batchSize + k * batchSize + batchSize)) = Inr results"
        unfolding eq .
    qed
    note ih = less.hyps [OF smaller rest, of "allResults @ results" "dispatched @ [slice countries i (i + batchSize)]"]
    have cs: "(length countries - i + batchSize - 1) div batchSize =
        Suc ((length countries - (i + batchSize) + batchSize - 1) div batchSize)"
      using assms(1) True by (rule ceil_step)
    show ?thesis
      unfolding step ih cs map_upt_Suc
      by (simp add: r add.assoc)
  qed
qed

lemma main_loop_aborts:
  assumes "0 < batchSize"
  shows "i + k * batchSize < length countries \<Longrightarrow>
     query (slice countries (i + k * batchSize) (i + k * batchSize + batchSize)) = Inl err \<Longrightarrow>
     \<exists>err' dispatched'. main_loop query countries batchSize i allResults dispatched = Some (Inl err', dispatched')"
proof (induction k arbitrary: i allResults dispatched)
  case 0
  then show ?case by (subst main_loop.simps) simp
next
  case (Suc k)
  have i: "i < length countries" using Suc.prems(1) by simp
  show ?case
  proof (cases "query (slice countries i (i + batchSize))")
    case (Inl e)
    then show ?thesis using i by (subst main_loop.simps) simp
  next
    case (Inr results)
    have eq: "i + batchSize + k * batchSize = i + Suc k * batchSize" by simp
    have "i + batchSize + k * batchSize < length countries"
      using Suc.prems(1) unfolding eq .
    moreover have "query (slice countries (i + batchSize + k * batchSize) (i + batchSize + k * batchSize + batchSize)) = Inl err"
      using Suc.prems(2) unfolding eq .
    ultimately have "\<exists>err' dispatched'. main_loop query countries batchSize (i + batchSize) (allResults @ results)
        (dispatched @ [slice countries i (i + batchSize)]) = Some (Inl err', dispatched')"
      by (rule Suc.IH)
    then show ?thesis using i Inr by (subst main_loop.simps) simp
  qed
qed

lemma concat_slices:
  assumes "0 < batchSize"
  shows "concat (map (\<lambda>k. slice xs (i + k * batchSize) (i + k * batchSize + batchSize))
            [0..<(length xs - i + batchSize - 1) div batchSize]) = drop i xs"
proof (induction "length xs - i" arbitrary: i rule: less_induct)
  case less
  show ?case
  proof (cases "i < length xs")
    case False
    then have "(length xs - i + batchSize - 1) div batchSize = 0"
      using assms by simp
    then show ?thesis using False by simp
  next
    case True
    have smaller: "length xs - (i + batchSize) < length xs - i"
      using True assms by simp
    have cs: "(length xs - i + batchSize - 1) div batchSize =
        Suc ((length xs - (i + batchSize) + batchSize - 1) div batchSize)"
      using assms True by (rule ceil_step)
    have "take batchSize (drop i xs) @ drop (i + batchSize) xs = drop i xs"
      by (metis append_take_drop_id drop_drop add.commute)
    then show ?thesis
      unfolding cs map_upt_Suc using less.hyps [OF smaller]
      by (simp add: slice_def add.assoc)
  qed
qed

lemma below_ceil:
  "0 < (B::nat) \<Longrightarrow> k < (N + B - 1) div B \<Longrightarrow> k * B < N"
proof -
  assume B: "0 < B" and k: "k < (N + B - 1) div B"
  then have "Suc k \<le> (N + B - 1) div B" by simp
  then have "Suc k * B \<le> N + B - 1" using B by (simp add: less_eq_div_iff_mult_less_eq)
  then show "k * B < N" using B by simp
qed

section \<open>Properties of upsertRecords\<close>

lemma strict_neq_read: "strict_neq (read_column x) (Val (JStr a)) \<longleftrightarrow> x \<noteq> Some a"
  by (cases x) (simp_all add: read_column_def)

lemma lookup_strings:
  "lookup e rows (Val (JStr s)) (Val (JStr c)) = select_maybeSingle (fetch_fault e) rows s c"
  by (simp add: lookup_def eq_text_def)

lemma upsert_one_fetch_failed:
  "lookup e rows s c = Inl m \<Longrightarrow> upsert_one e rows s c a = (rows, FetchError s c m)"
  by (simp add: upsert_one_def)

lemma upsert_one_insert:
  "lookup e rows s c = Inr None \<Longrightarrow>
   upsert_one e rows s c a =
     (case write_fault e of
        Some m \<Rightarrow> (rows, InsertError s c m)
      | None \<Rightarrow>
          (rows @ [\<lparr>row_id = fresh_id rows,
                    substance = sent_or_null (body_property (column_text e) s),
                    country_code = sent_or_null (body_property (column_text e) c),
                    access_status = sent_or_null (body_property (column_text e) a),
                    updated_at = clock e\<rparr>], Inserted s c a))"
  by (simp add: upsert_one_def insert_row_def split: option.splits)

lemma upsert_one_update:
  "lookup e rows s c = Inr (Some existing) \<Longrightarrow>
   strict_neq (read_column (access_status existing)) a \<Longrightarrow>
   upsert_one e rows s c a =
     (case write_fault e of
        Some m \<Rightarrow> (rows, UpdateError s c m)
      | None \<Rightarrow>
          (map (\<lambda>r. if row_id r = row_id existing
                     then (case body_property (column_text e) a of
                             None \<Rightarrow> r\<lparr>updated_at := clock e\<rparr>
                           | Some x \<Rightarrow> r\<lparr>access_status := x, updated_at := clock e\<rparr>)
                     else r) rows,
           Updated s c (read_column (access_status existing)) a))"
  by (simp add: upsert_one_def update_by_id_def split: option.splits)

lemma upsert_one_skip:
  "lookup e rows s c = Inr (Some existing) \<Longrightarrow>
   \<not> strict_neq (read_column (access_status existing)) a \<Longrightarrow>
   upsert_one e rows s c a = (rows, Skipped s c)"
  by (simp add: upsert_one_def)

lemma select_none:
  "fault = None \<Longrightarrow> matching rows s c = [] \<Longrightarrow> select_maybeSingle fault rows s c = Inr None"
  by (simp add: select_maybeSingle_def)

lemma select_single:
  "fault = None \<Longrightarrow> matching rows s c = [r] \<Longrightarrow> select_maybeSingle fault rows s c = Inr (Some r)"
  by (simp add: select_maybeSingle_def)

text \<open>A record of three strings, its lookup and write answered without error.\<close>

lemma upsert_one_strings_insert:
  assumes "fetch_fault e = None" and "write_fault e = None" and "matching rows s c = []"
  shows "upsert_one e rows (Val (JStr s)) (Val (JStr c)) (Val (JStr a)) =
     (rows @ [\<lparr>row_id = fresh_id rows, substance = Some s, country_code = Some c,
               access_status = Some a, updated_at = clock e\<rparr>],
      Inserted (Val (JStr s)) (Val (JStr c)) (Val (JStr a)))"
proof -
  have "lookup e rows (Val (JStr s)) (Val (JStr c)) = Inr None"
    using assms by (simp add: lookup_strings select_none)
  from upsert_one_insert [OF this, of "Val (JStr a)"] assms(2)
  show ?thesis by (simp add: body_property_def sent_or_null_def)
qed

lemma upsert_one_strings_update:
  assumes "fetch_fault e = None" and "write_fault e = None" and "matching rows s c = [existing]"
    and "access_status existing \<noteq> Some a"
  shows "upsert_one e rows (Val (JStr s)) (Val (JStr c)) (Val (JStr a)) =
     (map (\<lambda>r. if row_id r = row_id existing
                then r\<lparr>access_status := Some a, updated_at := clock e\<rparr> else r) rows,
      Updated (Val (JStr s)) (Val (JStr c)) (read_column (access_status existing)) (Val (JStr a)))"
proof -
  have "lookup e rows (Val (JStr s)) (Val (JStr c)) = Inr (Some existing)"
    using assms by (simp add: lookup_strings select_single)
  moreover have "strict_neq (read_column (access_status existing)) (Val (JStr a))"
    using assms(4) by (simp add: strict_neq_read)
  ultimately show ?thesis
    using upsert_one_update [of e rows "Val (JStr s)" "Val (JStr c)" existing "Val (JStr a)"] assms(2)
    by (simp add: body_property_def)
qed

lemma upsert_one_strings_skip:
  assumes "fetch_fault e = None" and "matching rows s c = [existing]"
    and "access_status existing = Some a"
  shows "upsert_one e rows (Val (JStr s)) (Val (JStr c)) (Val (JStr a)) =
     (rows, Skipped (Val (JStr s)) (Val (JStr c)))"
proof -
  have "lookup e rows (Val (JStr s)) (Val (JStr c)) = Inr (Some existing)"
    using assms by (simp add: lookup_strings select_single)
  moreover have "\<not> strict_neq (read_column (access_status existing)) (Val (JStr a))"
    using assms(3) by (simp add: strict_neq_read)
  ultimately show ?thesis by (rule upsert_one_skip)
qed

lemma upsertRecords_Cons:
  "destructure rec = Inr (s, c, a) \<Longrightarrow> upsert_one (env 0) rows s c a = (rows', entry) \<Longrightarrow>
   upsertRecords (\<lambda>k. env (Suc k)) rows' records = (rows1, entries, thrown) \<Longrightarrow>
   upsertRecords env rows (rec # records) = (rows1, entry # entries, thrown)"
  by simp

lemma upsertRecords_append:
  "upsertRecords env rows (xs @ ys) =
     (case upsertRecords env rows xs of
        (rows1, entries1, Some err) \<Rightarrow> (rows1, entries1, Some err)
      | (rows1, entries1, None) \<Rightarrow>
          (case upsertRecords (\<lambda>k. env (length xs + k)) rows1 ys of
             (rows2, entries2, thrown) \<Rightarrow> (rows2, entries1 @ entries2, thrown)))"
proof (induction xs arbitrary: env rows)
  case Nil
  show ?case by (simp split: prod.splits)
next
  case (Cons x xs)
  show ?case
  proof (cases "destructure x")
    case (Inl err)
    then show ?thesis by simp
  next
    case (Inr f)
    obtain s c a where f: "f = (s, c, a)" by (cases f)
    obtain rows' entry where u: "upsert_one (env 0) rows s c a = (rows', entry)"
      by (cases "upsert_one (env 0) rows s c a")
    show ?thesis
      using Inr f u Cons.IH [of "\<lambda>k. env (Suc k)" rows']
      by (simp split: prod.splits option.splits)
  qed
qed

lemma upsertRecords_middle:
  assumes "upsertRecords env rows pre = (rows1, entries1, None)"
    and "destructure rec = Inr (s, c, a)"
    and "upsert_one (env (length pre)) rows1 s c a = (rows2, entry)"
  shows "upsertRecords env rows (pre @ rec # post) =
     (case upsertRecords (\<lambda>k. env (Suc (length pre) + k)) rows2 post of
        (rows3, entries3, thrown) \<Rightarrow> (rows3, entries1 @ entry # entries3, thrown))"
  using assms by (simp add: upsertRecords_append split: prod.splits)

lemma string_fields_Some:
  "string_fields rec = Some (s, c, a) \<Longrightarrow>
   destructure rec = Inr (Val (JStr s), Val (JStr c), Val (JStr a))
   \<and> key_of rec = (Val (JStr s), Val (JStr c)) \<and> status_of rec = Val (JStr a)"
  by (auto simp add: string_fields_def key_of_def status_of_def
      split: sum.splits prod.splits jsval.splits json.splits)

lemma matching_le_one:
  "distinct (map row_key rows) \<Longrightarrow> matching rows s c = [] \<or> (\<exists>r. matching rows s c = [r])"
proof (induction rows)
  case Nil
  show ?case by (simp add: matching_def)
next
  case (Cons r rows)
  show ?case
  proof (cases "row_key r = (Some s, Some c)")
    case True
    have "row_key r \<notin> set (map row_key rows)"
      using Cons.prems by simp
    then have "\<forall>x\<in>set rows. row_key x \<noteq> (Some s, Some c)"
      using True by force
    then have "matching rows s c = []"
      by (auto simp add: matching_def row_key_def filter_empty_conv)
    then show ?thesis using True by (simp add: matching_def row_key_def)
  next
    case False
    then have "matching (r # rows) s c = matching rows s c"
      by (auto simp add: matching_def row_key_def)
    then show ?thesis using Cons by simp
  qed
qed

lemma matching_set:
  "r \<in> set (matching rows s c) \<longleftrightarrow> r \<in> set rows \<and> row_key r = (Some s, Some c)"
  by (auto simp add: matching_def row_key_def)

lemma matching_update:
  "matching (map (\<lambda>x. if row_id x = i then x\<lparr>access_status := a, updated_at := t\<rparr> else x) rows) s c =
   map (\<lambda>x. if row_id x = i then x\<lparr>access_status := a, updated_at := t\<rparr> else x) (matching rows s c)"
  by (induction rows) (auto simp add: matching_def)

lemma fresh_id_gt: "r \<in> set rows \<Longrightarrow> row_id r < fresh_id rows"
  by (induction rows) (auto simp add: fresh_id_def)

lemma settled_iff:
  "settled rows s c a \<longleftrightarrow> (\<exists>r. matching rows s c = [r] \<and> access_status r = Some a)"
  by (auto simp add: settled_def split: list.splits)

lemma step_no_faults:
  assumes e: "fetch_fault e = None" "write_fault e = None"
    and ids: "distinct (map row_id rows)" and keys: "distinct (map row_key rows)"
    and u: "upsert_one e rows (Val (JStr s)) (Val (JStr c)) (Val (JStr a)) = (rows', entry)"
  shows "distinct (map row_id rows')" and "distinct (map row_key rows')"
    and "settled rows' s c a"
    and "\<And>s2 c2. (s2, c2) \<noteq> (s, c) \<Longrightarrow> matching rows' s2 c2 = matching rows s2 c2"
proof -
  let ?new = "\<lparr>row_id = fresh_id rows, substance = Some s, country_code = Some c,
               access_status = Some a, updated_at = clock e\<rparr>"
  from matching_le_one [OF keys, of s c]
  consider (none) "matching rows s c = []" | (one) r where "matching rows s c = [r]" by blast
  then have "distinct (map row_id rows') \<and> distinct (map row_key rows')
    \<and> settled rows' s c a
    \<and> (\<forall>s2 c2. (s2, c2) \<noteq> (s, c) \<longrightarrow> matching rows' s2 c2 = matching rows s2 c2)"
  proof cases
    case none
    have rows': "rows' = rows @ [?new]"
      using u upsert_one_strings_insert [OF e none, of a] by simp
    have "\<forall>x\<in>set rows. row_key x \<noteq> (Some s, Some c)"
      using none matching_set [of _ rows s c] by (metis empty_iff empty_set)
    then have k: "(Some s, Some c) \<notin> set (map row_key rows)" by auto
    have i: "fresh_id rows \<notin> set (map row_id rows)"
    proof
      assume "fresh_id rows \<in> set (map row_id rows)"
      then obtain x where "x \<in> set rows" "row_id x = fresh_id rows" by auto
      then show False using fresh_id_gt [of x rows] by simp
    qed
    have "matching rows' s c = [?new]"
      using none by (simp add: rows' matching_def)
    then have "settled rows' s c a" by (simp add: settled_iff)
    moreover have "\<forall>s2 c2. (s2, c2) \<noteq> (s, c) \<longrightarrow> matching rows' s2 c2 = matching rows s2 c2"
      by (auto simp add: rows' matching_def)
    ultimately show ?thesis
      using ids keys k i by (simp add: rows' row_key_def)
  next
    case one
    have r_in: "r \<in> set rows" and r_key: "row_key r = (Some s, Some c)"
      using one matching_set [of r rows s c] by simp_all
    show ?thesis
    proof (cases "access_status r = Some a")
      case True
      then have "rows' = rows"
        using u upsert_one_strings_skip [OF e(1) one True] by simp
      then show ?thesis using ids keys one True by (simp add: settled_iff)
    next
      case False
      let ?upd = "\<lambda>x. if row_id x = row_id r then x\<lparr>access_status := Some a, updated_at := clock e\<rparr> else x"
      have rows': "rows' = map ?upd rows"
        using u upsert_one_strings_update [OF e one False] by simp
      have keep_id: "map row_id (map ?upd rows) = map row_id rows"
        by (induction rows) auto
      have keep_key: "map row_key (map ?upd rows) = map row_key rows"
        by (induction rows) (auto simp add: row_key_def)
      have "matching rows' s c = [r\<lparr>access_status := Some a, updated_at := clock e\<rparr>]"
        by (simp add: rows' matching_update one)
      then have "settled rows' s c a" by (simp add: settled_iff)
      moreover have "\<forall>s2 c2. (s2, c2) \<noteq> (s, c) \<longrightarrow> matching rows' s2 c2 = matching rows s2 c2"
      proof (intro allI impI)
        fix s2 c2 assume ne: "(s2, c2) \<noteq> (s, c)"
        have "\<forall>x\<in>set (matching rows s2 c2). row_id x \<noteq> row_id r"
        proof
          fix x assume x: "x \<in> set (matching rows s2 c2)"
          then have "x \<in> set rows" "row_key x = (Some s2, Some c2)" by (simp_all add: matching_set)
          then have "x \<noteq> r" using ne r_key by auto
          then show "row_id x \<noteq> row_id r"
            using ids \<open>x \<in> set rows\<close> r_in by (meson distinct_map inj_onD)
        qed
        then have "map ?upd (matching rows s2 c2) = matching rows s2 c2"
          by (induction "matching rows s2 c2") (auto simp add: map_idI)
        then show "matching rows' s2 c2 = matching rows s2 c2"
          by (simp add: rows' matching_update)
      qed
      moreover have "distinct (map row_id rows')"
        unfolding rows' keep_id by (rule ids)
      moreover have "distinct (map row_key rows')"
        unfolding rows' keep_key by (rule keys)
      ultimately show ?thesis by blast
    qed
  qed
  then show "distinct (map row_id rows')" and "distinct (map row_key rows')"
    and "settled rows' s c a"
    and "\<And>s2 c2. (s2, c2) \<noteq> (s, c) \<Longrightarrow> matching rows' s2 c2 = matching rows s2 c2"
    by blast+
qed

lemma destructure_sample:
  "destructure ketamine_us_banned = Inr (Val (JStr ''Ketamine''), Val (JStr ''US''), Val (JStr ''Banned''))"
  "destructure ketamine_us_approved =
     Inr (Val (JStr ''Ketamine''), Val (JStr ''US''), Val (JStr ''Approved Medical Use''))"
  "destructure mdma_ca_trials =
     Inr (Val (JStr ''MDMA''), Val (JStr ''CA''), Val (JStr ''Limited Access Trials''))"
  by (simp_all add: sample_defs destructure_def get_property_def)



lemma run_no_faults:
  assumes "\<forall>k<length records. fetch_fault (env k) = None \<and> write_fault (env k) = None"
    and "\<forall>rec\<in>set records. string_fields rec \<noteq> None"
    and "\<forall>r1\<in>set records. \<forall>r2\<in>set records. key_of r1 = key_of r2 \<longrightarrow> status_of r1 = status_of r2"
    and "distinct (map row_id rows)" and "distinct (map row_key rows)"
    and "upsertRecords env rows records = (rows1, entries1, thrown1)"
  shows "thrown1 = None
    \<and> distinct (map row_id rows1) \<and> distinct (map row_key rows1)
    \<and> (\<forall>rec\<in>set records. \<forall>s c a. string_fields rec = Some (s, c, a) \<longrightarrow> settled rows1 s c a)
    \<and> (\<forall>s c a. (\<forall>rec\<in>set records. key_of rec = (Val (JStr s), Val (JStr c)) \<longrightarrow> status_of rec = Val (JStr a))
          \<and> settled rows s c a \<longrightarrow> settled rows1 s c a)"
  using assms
proof (induction records arbitrary: env rows rows1 entries1 thrown1)
  case Nil
  then show ?case by simp
next
  case (Cons rec records)
  from Cons.prems(2) obtain s c a where sf: "string_fields rec = Some (s, c, a)"
    by fastforce
  note f = string_fields_Some [OF sf]
  note d = f [THEN conjunct1]
  note key = f [THEN conjunct2, THEN conjunct1]
  note st = f [THEN conjunct2, THEN conjunct2]
  obtain rows' entry where
    u: "upsert_one (env 0) rows (Val (JStr s)) (Val (JStr c)) (Val (JStr a)) = (rows', entry)"
    by (cases "upsert_one (env 0) rows (Val (JStr s)) (Val (JStr c)) (Val (JStr a))")
  obtain rows2 entries2 thrown2 where
    rest: "upsertRecords (\<lambda>k. env (Suc k)) rows' records = (rows2, entries2, thrown2)"
    by (cases "upsertRecords (\<lambda>k. env (Suc k)) rows' records")
  have whole: "rows1 = rows2" "thrown1 = thrown2"
    using Cons.prems(6) upsertRecords_Cons [OF d u rest] by simp_all
  have e0: "fetch_fault (env 0) = None" "write_fault (env 0) = None"
    using Cons.prems(1) by auto
  note step = step_no_faults [OF e0 Cons.prems(4) Cons.prems(5) u]
  have ih: "thrown2 = None
    \<and> distinct (map row_id rows2) \<and> distinct (map row_key rows2)
    \<and> (\<forall>rec\<in>set records. \<forall>s c a. string_fields rec = Some (s, c, a) \<longrightarrow> settled rows2 s c a)
    \<and> (\<forall>s c a. (\<forall>rec\<in>set records. key_of rec = (Val (JStr s), Val (JStr c)) \<longrightarrow> status_of rec = Val (JStr a))
          \<and> settled rows' s c a \<longrightarrow> settled rows2 s c a)"
  proof (rule Cons.IH [OF _ _ _ step(1) step(2) rest])
    show "\<forall>k<length records. fetch_fault (env (Suc k)) = None \<and> write_fault (env (Suc k)) = None"
      using Cons.prems(1) by auto
    show "\<forall>rec\<in>set records. string_fields rec \<noteq> None"
      using Cons.prems(2) by simp
    show "\<forall>r1\<in>set records. \<forall>r2\<in>set records. key_of r1 = key_of r2 \<longrightarrow> status_of r1 = status_of r2"
    proof (intro ballI impI)
      fix r1 r2 assume "r1 \<in> set records" "r2 \<in> set records" and k: "key_of r1 = key_of r2"
      then have "r1 \<in> set (rec # records)" "r2 \<in> set (rec # records)" by simp_all
      with Cons.prems(3) k show "status_of r1 = status_of r2" by blast
    qed
  qed
  note ih_thrown = ih [THEN conjunct1]
  note ih_ids = ih [THEN conjunct2, THEN conjunct1]
  note ih_keys = ih [THEN conjunct2, THEN conjunct2, THEN conjunct1]
  note ih_settled = ih [THEN conjunct2, THEN conjunct2, THEN conjunct2, THEN conjunct1]
  note ih_frame = ih [THEN conjunct2, THEN conjunct2, THEN conjunct2, THEN conjunct2, rule_format]
  have agree: "\<forall>rec'\<in>set records. key_of rec' = (Val (JStr s), Val (JStr c)) \<longrightarrow> status_of rec' = Val (JStr a)"
  proof (intro ballI impI)
    fix rec' assume "rec' \<in> set records" "key_of rec' = (Val (JStr s), Val (JStr c))"
    then have "rec \<in> set (rec # records)" "rec' \<in> set (rec # records)" "key_of rec = key_of rec'"
      using key by simp_all
    then have "status_of rec = status_of rec'" using Cons.prems(3) by blast
    then show "status_of rec' = Val (JStr a)" using st by simp
  qed
  have here: "settled rows2 s c a"
    using agree step(3) by (intro ih_frame conjI)
  have frame: "\<forall>s2 c2 a2. (\<forall>rec'\<in>set (rec # records). key_of rec' = (Val (JStr s2), Val (JStr c2)) \<longrightarrow> status_of rec' = Val (JStr a2))
      \<and> settled rows s2 c2 a2 \<longrightarrow> settled rows2 s2 c2 a2"
  proof (intro allI impI)
    fix s2 c2 a2
    assume h: "(\<forall>rec'\<in>set (rec # records). key_of rec' = (Val (JStr s2), Val (JStr c2)) \<longrightarrow> status_of rec' = Val (JStr a2))
      \<and> settled rows s2 c2 a2"
    have "settled rows' s2 c2 a2"
    proof (cases "(s2, c2) = (s, c)")
      case True
      then have "key_of rec = (Val (JStr s2), Val (JStr c2))" using key by simp
      then have "status_of rec = Val (JStr a2)" using h by simp
      then have "a2 = a" using st by simp
      then show ?thesis using step(3) True by simp
    next
      case False
      then have "matching rows' s2 c2 = matching rows s2 c2" by (rule step(4))
      then show ?thesis using h by (simp add: settled_def)
    qed
    moreover have "\<forall>rec'\<in>set records. key_of rec' = (Val (JStr s2), Val (JStr c2)) \<longrightarrow> status_of rec' = Val (JStr a2)"
      using h by simp
    ultimately show "settled rows2 s2 c2 a2" by (intro ih_frame conjI)
  qed
  show ?case
  proof (intro conjI)
    show "thrown1 = None" using ih_thrown by (simp add: whole)
    show "distinct (map row_id rows1)" unfolding whole by (rule ih_ids)
    show "distinct (map row_key rows1)" unfolding whole by (rule ih_keys)
    show "\<forall>rec'\<in>set (rec # records). \<forall>s c a. string_fields rec' = Some (s, c, a) \<longrightarrow> settled rows1 s c a"
      using ih_settled here sf by (simp add: whole)
    show "\<forall>s c a. (\<forall>rec'\<in>set (rec # records). key_of rec' = (Val (JStr s), Val (JStr c)) \<longrightarrow> status_of rec' = Val (JStr a))
          \<and> settled rows s c a \<longrightarrow> settled rows1 s c a"
      unfolding whole by (rule frame)
  qed
qed

lemma run_again:
  assumes "\<forall>k<length records. fetch_fault (env k) = None"
    and "\<forall>rec\<in>set records. string_fields rec \<noteq> None"
    and "\<forall>rec\<in>set records. \<forall>s c a. string_fields rec = Some (s, c, a) \<longrightarrow> settled rows s c a"
  shows "upsertRecords env rows records =
     (rows, map (\<lambda>rec. Skipped (fst (key_of rec)) (snd (key_of rec))) records, None)"
  using assms
proof (induction records arbitrary: env)
  case Nil
  show ?case by simp
next
  case (Cons rec records)
  from Cons.prems(2) obtain s c a where sf: "string_fields rec = Some (s, c, a)"
    by fastforce
  note f = string_fields_Some [OF sf]
  note d = f [THEN conjunct1]
  note key = f [THEN conjunct2, THEN conjunct1]
  from Cons.prems(3) sf have "settled rows s c a" by simp
  then obtain r where r: "matching rows s c = [r]" "access_status r = Some a"
    by (auto simp add: settled_iff)
  have e0: "fetch_fault (env 0) = None" using Cons.prems(1) by auto
  have u: "upsert_one (env 0) rows (Val (JStr s)) (Val (JStr c)) (Val (JStr a)) =
      (rows, Skipped (Val (JStr s)) (Val (JStr c)))"
    using e0 r by (rule upsert_one_strings_skip)
  have rest: "upsertRecords (\<lambda>k. env (Suc k)) rows records =
     (rows, map (\<lambda>rec. Skipped (fst (key_of rec)) (snd (key_of rec))) records, None)"
  proof (rule Cons.IH)
    show "\<forall>k<length records. fetch_fault (env (Suc k)) = None" using Cons.prems(1) by auto
    show "\<forall>rec\<in>set records. string_fields rec \<noteq> None" using Cons.prems(2) by simp
    show "\<forall>rec\<in>set records. \<forall>s c a. string_fields rec = Some (s, c, a) \<longrightarrow> settled rows s c a"
      using Cons.prems(3) by simp
  qed
  show ?case
    using upsertRecords_Cons [OF d u rest] by (simp add: key)
qed

section \<open>Shape tolerance and the errors of the reply handling\<close>

text \<open>
  Claim C5. When the oracle's reply parses to a bare array of records, and when it parses
  to an object holding that same array under a single key of any name,
  \<^verbatim>\<open>getAccessStatuses\<close> returns the same record sequence: the array.
\<close>

theorem shape_tolerance:
  assumes "outcome (withRetry (create1 substances countries) 5) = Inr (Some raw)"
    and "outcome (withRetry (create2 substances countries) 5) = Inr (Some wrapped)"
    and "raw \<noteq> []" and "wrapped \<noteq> []"
    and "JSON_parse raw = Some (JArr records)"
    and "JSON_parse wrapped = Some (JObj [(key, JArr records)])"
  shows "getAccessStatuses JSON_parse create1 substances countries = Inr records
       \<and> getAccessStatuses JSON_parse create2 substances countries = Inr records"
  using assms
  by (simp add: getAccessStatuses_content handle_reply_def Object_values_def isArray_def)

text \<open>
  The two replies of the sample data, the second wrapping the array under the key
  \<^verbatim>\<open>results\<close>.
\<close>

theorem shape_tolerance_witness:
  "getAccessStatuses sample_parse (reply_with bare_reply) SUBSTANCES [''US''] = Inr [ketamine_us_banned]
   \<and> getAccessStatuses sample_parse (reply_with wrapped_reply) SUBSTANCES [''US''] = Inr [ketamine_us_banned]"
  using shape_tolerance [where ?create1.0 = "reply_with bare_reply"
      and ?create2.0 = "reply_with wrapped_reply"
      and substances = SUBSTANCES and countries = "[''US'']"
      and raw = bare_reply and wrapped = wrapped_reply and JSON_parse = sample_parse
      and records = "[ketamine_us_banned]" and key = "''results''"]
  by (simp add: withRetry_first_call reply_with_def sample_parse_def bare_reply_def wrapped_reply_def)

text \<open>
  Claim C6 at the reply \<^verbatim>\<open>null\<close>. The text is not empty and parses, the parsed value is
  not an array and has no child that is one, so the claim asks for the error
  \<^verbatim>\<open>Expected array of records, got: null\<close>. The code passes \<^verbatim>\<open>null\<close> to
  \<^verbatim>\<open>Object.values\<close>, which throws a \<^verbatim>\<open>TypeError\<close> before the shape is judged.
\<close>

theorem null_reply_TypeError:
  "getAccessStatuses sample_parse (reply_with ''null'') SUBSTANCES [''US''] = Inl TypeError
   \<and> getAccessStatuses sample_parse (reply_with ''null'') SUBSTANCES [''US''] \<noteq> Inl (ExpectedArray JNull)"
  by (simp add: getAccessStatuses_def reply_with_def withRetry_first_call handle_reply_def
      sample_parse_def bare_reply_def wrapped_reply_def Object_values_def)

section \<open>The decisions of upsertRecords\<close>




section \<open>Records with a missing field\<close>




section \<open>Store failures are isolated to their record\<close>

text \<open>
  Claim C8. When the lookup of a record fails, whatever came before it in the run stays
  as it was, the failure is logged, the table is not touched for this record, and the
  records after it are processed from that table exactly as a run over them alone would:
  the outcome of the whole run is theirs.
\<close>

theorem fetch_failure_skips_record:
  assumes "upsertRecords env rows pre = (rows1, entries1, None)"
    and "destructure rec = Inr (s, c, a)"
    and "lookup (env (length pre)) rows1 s c = Inl msg"
  shows "upsertRecords env rows (pre @ rec # post) =
     (case upsertRecords (\<lambda>k. env (Suc (length pre) + k)) rows1 post of
        (rows2, entries2, thrown) \<Rightarrow> (rows2, entries1 @ FetchError s c msg # entries2, thrown))"
  using upsertRecords_middle [OF assms(1) assms(2) upsert_one_fetch_failed [OF assms(3)]] .

theorem fetch_failure_skips_record_witness:
  "upsertRecords (fetch_fails_at 1) [] [ketamine_us_banned, mdma_ca_trials, ketamine_us_approved] =
     ([ketamine_us_row ''Approved Medical Use'' 1002],
      [Inserted (Val (JStr ''Ketamine'')) (Val (JStr ''US'')) (Val (JStr ''Banned'')),
       FetchError (Val (JStr ''MDMA'')) (Val (JStr ''CA'')) ''fetch failed'',
       Updated (Val (JStr ''Ketamine'')) (Val (JStr ''US'')) (Val (JStr ''Banned''))
         (Val (JStr ''Approved Medical Use''))], None)"
proof -
  have pre: "upsertRecords (fetch_fails_at 1) [] [ketamine_us_banned] =
      ([ketamine_us_row ''Banned'' 1000],
       [Inserted (Val (JStr ''Ketamine'')) (Val (JStr ''US'')) (Val (JStr ''Banned''))], None)"
    by (simp add: sample_defs store_defs)
  have f: "lookup (fetch_fails_at 1 (length [ketamine_us_banned]))
      [ketamine_us_row ''Banned'' 1000] (Val (JStr ''MDMA'')) (Val (JStr ''CA'')) =
      Inl ''fetch failed''"
    by (simp add: fetch_fails_at_def lookup_def select_maybeSingle_def)
  have post: "upsertRecords (\<lambda>k. fetch_fails_at 1 (Suc (length [ketamine_us_banned]) + k))
      [ketamine_us_row ''Banned'' 1000] [ketamine_us_approved] =
      ([ketamine_us_row ''Approved Medical Use'' 1002],
       [Updated (Val (JStr ''Ketamine'')) (Val (JStr ''US'')) (Val (JStr ''Banned''))
         (Val (JStr ''Approved Medical Use''))], None)"
    by (simp add: sample_defs store_defs)
  show ?thesis
    using fetch_failure_skips_record [OF pre destructure_sample(3) f, of "[ketamine_us_approved]"]
    unfolding post by simp
qed

text \<open>
  Claim C10. The same holds when the write fails: a failed insert, or a failed update, is
  logged, leaves the table as it was, and the records after it are processed as a run
  over them alone would.
\<close>

theorem write_failure_skips_record:
  assumes "upsertRecords env rows pre = (rows1, entries1, None)"
    and "destructure rec = Inr (s, c, a)"
    and "write_fault (env (length pre)) = Some msg"
  shows "(lookup (env (length pre)) rows1 s c = Inr None \<longrightarrow>
           upsertRecords env rows (pre @ rec # post) =
             (case upsertRecords (\<lambda>k. env (Suc (length pre) + k)) rows1 post of
                (rows2, entries2, thrown) \<Rightarrow> (rows2, entries1 @ InsertError s c msg # entries2, thrown)))
       \<and> (lookup (env (length pre)) rows1 s c = Inr (Some existing)
            \<and> strict_neq (read_column (access_status existing)) a \<longrightarrow>
           upsertRecords env rows (pre @ rec # post) =
             (case upsertRecords (\<lambda>k. env (Suc (length pre) + k)) rows1 post of
                (rows2, entries2, thrown) \<Rightarrow> (rows2, entries1 @ UpdateError s c msg # entries2, thrown)))"
proof (intro conjI impI)
  assume sel: "lookup (env (length pre)) rows1 s c = Inr None"
  have "upsert_one (env (length pre)) rows1 s c a = (rows1, InsertError s c msg)"
    using upsert_one_insert [OF sel, of a] assms(3) by simp
  from upsertRecords_middle [OF assms(1) assms(2) this]
  show "upsertRecords env rows (pre @ rec # post) =
     (case upsertRecords (\<lambda>k. env (Suc (length pre) + k)) rows1 post of
        (rows2, entries2, thrown) \<Rightarrow> (rows2, entries1 @ InsertError s c msg # entries2, thrown))" .
next
  assume sel: "lookup (env (length pre)) rows1 s c = Inr (Some existing)
      \<and> strict_neq (read_column (access_status existing)) a"
  have "upsert_one (env (length pre)) rows1 s c a = (rows1, UpdateError s c msg)"
    using upsert_one_update [OF conjunct1 [OF sel] conjunct2 [OF sel]] assms(3) by simp
  from upsertRecords_middle [OF assms(1) assms(2) this]
  show "upsertRecords env rows (pre @ rec # post) =
     (case upsertRecords (\<lambda>k. env (Suc (length pre) + k)) rows1 post of
        (rows2, entries2, thrown) \<Rightarrow> (rows2, entries1 @ UpdateError s c msg # entries2, thrown))" .
qed

theorem write_failure_skips_record_witness:
  "upsertRecords (write_fails_at 1) [] [ketamine_us_banned, mdma_ca_trials, ketamine_us_approved] =
     ([ketamine_us_row ''Approved Medical Use'' 1002],
      [Inserted (Val (JStr ''Ketamine'')) (Val (JStr ''US'')) (Val (JStr ''Banned'')),
       InsertError (Val (JStr ''MDMA'')) (Val (JStr ''CA'')) ''write failed'',
       Updated (Val (JStr ''Ketamine'')) (Val (JStr ''US'')) (Val (JStr ''Banned''))
         (Val (JStr ''Approved Medical Use''))], None)
   \<and> upsertRecords (write_fails_at 0) [ketamine_us_row ''Banned'' 7]
       [ketamine_us_approved, mdma_ca_trials] =
     ([ketamine_us_row ''Banned'' 7, mdma_ca_row],
      [UpdateError (Val (JStr ''Ketamine'')) (Val (JStr ''US'')) ''write failed'',
       Inserted (Val (JStr ''MDMA'')) (Val (JStr ''CA'')) (Val (JStr ''Limited Access Trials''))], None)"
proof (intro conjI)
  have pre: "upsertRecords (write_fails_at 1) [] [ketamine_us_banned] =
      ([ketamine_us_row ''Banned'' 1000],
       [Inserted (Val (JStr ''Ketamine'')) (Val (JStr ''US'')) (Val (JStr ''Banned''))], None)"
    by (simp add: sample_defs store_defs)
  have w: "write_fault (write_fails_at 1 (length [ketamine_us_banned])) = Some ''write failed''"
    by (simp add: write_fails_at_def no_faults_def)
  have sel: "lookup (write_fails_at 1 (length [ketamine_us_banned]))
      [ketamine_us_row ''Banned'' 1000] (Val (JStr ''MDMA'')) (Val (JStr ''CA'')) = Inr None"
    by (simp add: write_fails_at_def no_faults_def lookup_def eq_text_def select_maybeSingle_def
        matching_def ketamine_us_row_def)
  have post: "upsertRecords (\<lambda>k. write_fails_at 1 (Suc (length [ketamine_us_banned]) + k))
      [ketamine_us_row ''Banned'' 1000] [ketamine_us_approved] =
      ([ketamine_us_row ''Approved Medical Use'' 1002],
       [Updated (Val (JStr ''Ketamine'')) (Val (JStr ''US'')) (Val (JStr ''Banned''))
         (Val (JStr ''Approved Medical Use''))], None)"
    by (simp add: sample_defs store_defs)
  show "upsertRecords (write_fails_at 1) [] [ketamine_us_banned, mdma_ca_trials, ketamine_us_approved] =
     ([ketamine_us_row ''Approved Medical Use'' 1002],
      [Inserted (Val (JStr ''Ketamine'')) (Val (JStr ''US'')) (Val (JStr ''Banned'')),
       InsertError (Val (JStr ''MDMA'')) (Val (JStr ''CA'')) ''write failed'',
       Updated (Val (JStr ''Ketamine'')) (Val (JStr ''US'')) (Val (JStr ''Banned''))
         (Val (JStr ''Approved Medical Use''))], None)"
    using write_failure_skips_record [OF pre destructure_sample(3) w, of "[ketamine_us_approved]"] sel
    unfolding post by simp
next
  have pre: "upsertRecords (write_fails_at 0) [ketamine_us_row ''Banned'' 7] [] =
      ([ketamine_us_row ''Banned'' 7], [], None)"
    by simp
  have w: "write_fault (write_fails_at 0 (length ([]::json list))) = Some ''write failed''"
    by (simp add: write_fails_at_def no_faults_def)
  have sel: "lookup (write_fails_at 0 (length ([]::json list)))
      [ketamine_us_row ''Banned'' 7] (Val (JStr ''Ketamine'')) (Val (JStr ''US'')) =
      Inr (Some (ketamine_us_row ''Banned'' 7))
      \<and> strict_neq (read_column (access_status (ketamine_us_row ''Banned'' 7)))
            (Val (JStr ''Approved Medical Use''))"
    by (simp add: write_fails_at_def no_faults_def lookup_def eq_text_def select_maybeSingle_def
        matching_def ketamine_us_row_def read_column_def)
  have post: "upsertRecords (\<lambda>k. write_fails_at 0 (Suc (length ([]::json list)) + k))
      [ketamine_us_row ''Banned'' 7] [mdma_ca_trials] =
      ([ketamine_us_row ''Banned'' 7, mdma_ca_row],
       [Inserted (Val (JStr ''MDMA'')) (Val (JStr ''CA'')) (Val (JStr ''Limited Access Trials''))], None)"
    by (simp add: sample_defs store_defs)
  show "upsertRecords (write_fails_at 0) [ketamine_us_row ''Banned'' 7]
       [ketamine_us_approved, mdma_ca_trials] =
     ([ketamine_us_row ''Banned'' 7, mdma_ca_row],
      [UpdateError (Val (JStr ''Ketamine'')) (Val (JStr ''US'')) ''write failed'',
       Inserted (Val (JStr ''MDMA'')) (Val (JStr ''CA'')) (Val (JStr ''Limited Access Trials''))], None)"
    using write_failure_skips_record [OF pre destructure_sample(2) w,
        where existing = "ketamine_us_row ''Banned'' 7" and post = "[mdma_ca_trials]"] sel
    unfolding post by simp
qed

section \<open>Idempotence of upsertRecords\<close>

text \<open>
  Claim C1, as the code has it. Take records whose subject, scope and status are strings,
  any two with the same (subject, scope) key carrying the same status, and a table with
  pairwise different ids and at most one row per key. If no store call fails during a
  first run, that run does not throw, and a second run over the same records from the
  table the first run left (its lookups succeeding too) changes nothing: the table is
  the same, and the log holds one skip per record and nothing else.
\<close>

theorem reconcile_idempotent:
  assumes "\<forall>k<length records. fetch_fault (env1 k) = None \<and> write_fault (env1 k) = None"
    and "\<forall>k<length records. fetch_fault (env2 k) = None"
    and "\<forall>rec\<in>set records. string_fields rec \<noteq> None"
    and "\<forall>r1\<in>set records. \<forall>r2\<in>set records. key_of r1 = key_of r2 \<longrightarrow> status_of r1 = status_of r2"
    and "distinct (map row_id rows)"
    and "distinct (map (\<lambda>r. (substance r, country_code r)) rows)"
    and "upsertRecords env1 rows records = (rows1, entries1, thrown1)"
  shows "thrown1 = None
       \<and> upsertRecords env2 rows1 records =
           (rows1, map (\<lambda>rec. Skipped (fst (key_of rec)) (snd (key_of rec))) records, None)"
proof -
  have keys: "distinct (map row_key rows)"
    using assms(6) by (simp add: row_key_def [abs_def])
  note run1 = run_no_faults [OF assms(1) assms(3) assms(4) assms(5) keys assms(7)]
  have "\<forall>rec\<in>set records. \<forall>s c a. string_fields rec = Some (s, c, a) \<longrightarrow> settled rows1 s c a"
    by (rule run1 [THEN conjunct2, THEN conjunct2, THEN conjunct2, THEN conjunct1])
  with assms(2) assms(3) have "upsertRecords env2 rows1 records =
     (rows1, map (\<lambda>rec. Skipped (fst (key_of rec)) (snd (key_of rec))) records, None)"
    by (rule run_again)
  moreover have "thrown1 = None"
    by (rule run1 [THEN conjunct1])
  ultimately show ?thesis by simp
qed

lemma first_run:
  "upsertRecords no_faults [] [ketamine_us_banned, mdma_ca_trials, ketamine_us_banned] =
     ([ketamine_us_row ''Banned'' 1000, mdma_ca_row],
      [Inserted (Val (JStr ''Ketamine'')) (Val (JStr ''US'')) (Val (JStr ''Banned'')),
       Inserted (Val (JStr ''MDMA'')) (Val (JStr ''CA'')) (Val (JStr ''Limited Access Trials'')),
       Skipped (Val (JStr ''Ketamine'')) (Val (JStr ''US''))], None)"
  by (simp add: sample_defs store_defs)

theorem reconcile_idempotent_witness:
  "upsertRecords no_faults [] [ketamine_us_banned, mdma_ca_trials, ketamine_us_banned] =
     ([ketamine_us_row ''Banned'' 1000, mdma_ca_row],
      [Inserted (Val (JStr ''Ketamine'')) (Val (JStr ''US'')) (Val (JStr ''Banned'')),
       Inserted (Val (JStr ''MDMA'')) (Val (JStr ''CA'')) (Val (JStr ''Limited Access Trials'')),
       Skipped (Val (JStr ''Ketamine'')) (Val (JStr ''US''))], None)
   \<and> upsertRecords no_faults [ketamine_us_row ''Banned'' 1000, mdma_ca_row]
       [ketamine_us_banned, mdma_ca_trials, ketamine_us_banned] =
     ([ketamine_us_row ''Banned'' 1000, mdma_ca_row],
      [Skipped (Val (JStr ''Ketamine'')) (Val (JStr ''US'')),
       Skipped (Val (JStr ''MDMA'')) (Val (JStr ''CA'')),
       Skipped (Val (JStr ''Ketamine'')) (Val (JStr ''US''))], None)"
proof -
  have facts: "\<forall>k<length [ketamine_us_banned, mdma_ca_trials, ketamine_us_banned].
         fetch_fault (no_faults k) = None \<and> write_fault (no_faults k) = None"
    "\<forall>k<length [ketamine_us_banned, mdma_ca_trials, ketamine_us_banned]. fetch_fault (no_faults k) = None"
    "\<forall>rec\<in>set [ketamine_us_banned, mdma_ca_trials, ketamine_us_banned]. string_fields rec \<noteq> None"
    "\<forall>r1\<in>set [ketamine_us_banned, mdma_ca_trials, ketamine_us_banned].
       \<forall>r2\<in>set [ketamine_us_banned, mdma_ca_trials, ketamine_us_banned].
         key_of r1 = key_of r2 \<longrightarrow> status_of r1 = status_of r2"
    "distinct (map row_id [])" "distinct (map (\<lambda>r. (substance r, country_code r)) [])"
    by (simp_all add: sample_defs key_of_def status_of_def string_fields_def destructure_def
        get_property_def)
  have keys: "map (\<lambda>rec. Skipped (fst (key_of rec)) (snd (key_of rec)))
       [ketamine_us_banned, mdma_ca_trials, ketamine_us_banned] =
     [Skipped (Val (JStr ''Ketamine'')) (Val (JStr ''US'')),
       Skipped (Val (JStr ''MDMA'')) (Val (JStr ''CA'')),
       Skipped (Val (JStr ''Ketamine'')) (Val (JStr ''US''))]"
    by (simp add: sample_defs key_of_def destructure_def get_property_def)
  show ?thesis
    using reconcile_idempotent [OF facts first_run] first_run unfolding keys by simp
qed

text \<open>
  The claim as it was stated fails for records that disagree on a key: the first run
  inserts \<open>Banned\<close> and updates it to \<open>Approved Medical Use\<close>; the second run updates
  the row twice and leaves it with a new timestamp. It fails as well for a record that
  lacks its scope: the row inserted for it holds NULL there, the lookup of the second run
  does not find it, and the record is inserted once more.
\<close>

theorem reconcile_conflicting_duplicates_counterexample:
  "upsertRecords no_faults [] [ketamine_us_banned, ketamine_us_approved] =
     ([ketamine_us_row ''Approved Medical Use'' 1001],
      [Inserted (Val (JStr ''Ketamine'')) (Val (JStr ''US'')) (Val (JStr ''Banned'')),
       Updated (Val (JStr ''Ketamine'')) (Val (JStr ''US'')) (Val (JStr ''Banned''))
         (Val (JStr ''Approved Medical Use''))], None)
   \<and> upsertRecords (\<lambda>k. no_faults (k + 10)) [ketamine_us_row ''Approved Medical Use'' 1001]
       [ketamine_us_banned, ketamine_us_approved] =
     ([ketamine_us_row ''Approved Medical Use'' 1011],
      [Updated (Val (JStr ''Ketamine'')) (Val (JStr ''US'')) (Val (JStr ''Approved Medical Use''))
         (Val (JStr ''Banned'')),
       Updated (Val (JStr ''Ketamine'')) (Val (JStr ''US'')) (Val (JStr ''Banned''))
         (Val (JStr ''Approved Medical Use''))], None)
   \<and> upsertRecords no_faults [] [ketamine_banned_no_scope] =
     ([\<lparr>row_id = 1, substance = Some ''Ketamine'', country_code = None,
        access_status = Some ''Banned'', updated_at = 1000\<rparr>],
      [Inserted (Val (JStr ''Ketamine'')) Undefined (Val (JStr ''Banned''))], None)
   \<and> upsertRecords (\<lambda>k. no_faults (k + 10))
       [\<lparr>row_id = 1, substance = Some ''Ketamine'', country_code = None,
         access_status = Some ''Banned'', updated_at = 1000\<rparr>] [ketamine_banned_no_scope] =
     ([\<lparr>row_id = 1, substance = Some ''Ketamine'', country_code = None,
        access_status = Some ''Banned'', updated_at = 1000\<rparr>,
       \<lparr>row_id = 2, substance = Some ''Ketamine'', country_code = None,
        access_status = Some ''Banned'', updated_at = 1010\<rparr>],
      [Inserted (Val (JStr ''Ketamine'')) Undefined (Val (JStr ''Banned''))], None)"
  by (simp add: sample_defs store_defs)

section \<open>The batches of main and its fatal errors\<close>

text \<open>
  Claim C3. With a batch size \<open>B > 0\<close> and every query answered, the loop of \<^verbatim>\<open>main\<close>
  ends, having queried \<open>(N + B - 1) div B\<close> batches, that is \<open>N / B\<close> rounded up; the
  \<open>k\<close>-th batch is the \<open>B\<close> scopes from position \<open>k * B\<close> on (fewer at the end, never
  none), and the batches concatenated in order are the catalog.
\<close>

theorem batch_coverage:
  assumes "0 < batchSize"
    and "\<forall>k. k * batchSize < length countries \<longrightarrow>
           (\<exists>results. query (take batchSize (drop (k * batchSize) countries)) = Inr results)"
  shows "\<exists>allResults dispatched.
      main_loop query countries batchSize 0 [] [] = Some (Inr allResults, dispatched)
      \<and> length dispatched = (length countries + batchSize - 1) div batchSize
      \<and> (\<forall>k<length dispatched.
            dispatched ! k = take batchSize (drop (k * batchSize) countries)
            \<and> dispatched ! k \<noteq> [] \<and> length (dispatched ! k) \<le> batchSize)
      \<and> concat dispatched = countries"
proof -
  let ?n = "(length countries + batchSize - 1) div batchSize"
  let ?batch = "\<lambda>k. slice countries (0 + k * batchSize) (0 + k * batchSize + batchSize)"
  have batch: "\<And>k. ?batch k = take batchSize (drop (k * batchSize) countries)"
    by (simp add: slice_def)
  have ok: "\<forall>k. 0 + k * batchSize < length countries \<longrightarrow>
      (\<exists>results. query (slice countries (0 + k * batchSize) (0 + k * batchSize + batchSize)) = Inr results)"
    using assms(2) by (simp add: slice_def)
  have run: "main_loop query countries batchSize 0 [] [] =
      Some (Inr ([] @ concat (map (\<lambda>k. projr (query (?batch k))) [0..<(length countries - 0 + batchSize - 1) div batchSize])),
            [] @ map ?batch [0..<(length countries - 0 + batchSize - 1) div batchSize])"
    using assms(1) ok by (rule main_loop_collects)
  have d: "map ?batch [0..<?n] = map (\<lambda>k. take batchSize (drop (k * batchSize) countries)) [0..<?n]"
    using batch by simp
  have nth: "\<forall>k<?n. take batchSize (drop (k * batchSize) countries) \<noteq> []
      \<and> length (take batchSize (drop (k * batchSize) countries)) \<le> batchSize"
  proof (intro allI impI)
    fix k assume "k < ?n"
    then have "k * batchSize < length countries"
      using assms(1) below_ceil by blast
    then show "take batchSize (drop (k * batchSize) countries) \<noteq> []
      \<and> length (take batchSize (drop (k * batchSize) countries)) \<le> batchSize"
      using assms(1) by simp
  qed
  have c: "concat (map ?batch [0..<(length countries - 0 + batchSize - 1) div batchSize]) = drop 0 countries"
    using assms(1) by (rule concat_slices)
  show ?thesis
  proof (intro exI conjI)
    show "main_loop query countries batchSize 0 [] [] =
      Some (Inr (concat (map (\<lambda>k. projr (query (?batch k))) [0..<?n])),
            map (\<lambda>k. take batchSize (drop (k * batchSize) countries)) [0..<?n])"
      using run d by simp
    show "length (map (\<lambda>k. take batchSize (drop (k * batchSize) countries)) [0..<?n]) = ?n"
      by simp
    show "\<forall>k<length (map (\<lambda>k. take batchSize (drop (k * batchSize) countries)) [0..<?n]).
        map (\<lambda>k. take batchSize (drop (k * batchSize) countries)) [0..<?n] ! k =
          take batchSize (drop (k * batchSize) countries)
        \<and> map (\<lambda>k. take batchSize (drop (k * batchSize) countries)) [0..<?n] ! k \<noteq> []
        \<and> length (map (\<lambda>k. take batchSize (drop (k * batchSize) countries)) [0..<?n] ! k) \<le> batchSize"
      using nth by simp
    show "concat (map (\<lambda>k. take batchSize (drop (k * batchSize) countries)) [0..<?n]) = countries"
      using c by (simp add: slice_def)
  qed
qed

lemma sample_query:
  "getAccessStatuses sample_parse (reply_with bare_reply) substances countries = Inr [ketamine_us_banned]"
  by (simp add: getAccessStatuses_def reply_with_def withRetry_first_call handle_reply_def
      sample_parse_def bare_reply_def)

theorem batch_coverage_witness:
  "\<exists>allResults dispatched.
      main_loop (getAccessStatuses sample_parse (reply_with bare_reply) SUBSTANCES)
        [''US'', ''CA'', ''MX''] 2 0 [] [] = Some (Inr allResults, dispatched)
      \<and> length dispatched = 2
      \<and> dispatched ! 0 = [''US'', ''CA''] \<and> dispatched ! 1 = [''MX'']
      \<and> concat dispatched = [''US'', ''CA'', ''MX'']"
proof -
  from batch_coverage [of 2 "[''US'', ''CA'', ''MX'']"
      "getAccessStatuses sample_parse (reply_with bare_reply) SUBSTANCES"]
  obtain allResults dispatched where
    r: "main_loop (getAccessStatuses sample_parse (reply_with bare_reply) SUBSTANCES)
        [''US'', ''CA'', ''MX''] 2 0 [] [] = Some (Inr allResults, dispatched)"
    and l: "length dispatched = 2"
    and n: "\<forall>k<length dispatched. dispatched ! k = take 2 (drop (k * 2) [''US'', ''CA'', ''MX''])
            \<and> dispatched ! k \<noteq> [] \<and> length (dispatched ! k) \<le> 2"
    and c: "concat dispatched = [''US'', ''CA'', ''MX'']"
    by (auto simp add: sample_query)
  from n l have "dispatched ! 0 = [''US'', ''CA'']" "dispatched ! 1 = [''MX'']"
    by simp_all
  with r l c show ?thesis by blast
qed

text \<open>
  Claim C9. With a batch size \<open>B > 0\<close>: if the query of any batch throws, the run ends
  \<open>Fatal\<close> with the table untouched and no reconciliation log; if the query of every
  batch returns, \<^verbatim>\<open>upsertRecords\<close> runs once, over the results of all batches in order.
\<close>

theorem fatal_before_reconciliation:
  assumes "0 < batchSize"
  shows "(k * batchSize < length countries
          \<and> getAccessStatuses JSON_parse create substances
               (take batchSize (drop (k * batchSize) countries)) = Inl err \<longrightarrow>
          (\<exists>err' dispatched.
             main_with JSON_parse create env substances countries batchSize rows =
               Some (Fatal err', rows, [], dispatched)))
       \<and> ((\<forall>k. k * batchSize < length countries \<longrightarrow>
              (\<exists>results. getAccessStatuses JSON_parse create substances
                 (take batchSize (drop (k * batchSize) countries)) = Inr results)) \<longrightarrow>
          (\<exists>dispatched.
             main_with JSON_parse create env substances countries batchSize rows =
               (case upsertRecords env rows
                       (concat (map (\<lambda>k. projr (getAccessStatuses JSON_parse create substances
                                  (take batchSize (drop (k * batchSize) countries))))
                          [0..<(length countries + batchSize - 1) div batchSize])) of
                  (rows', entries, thrown) \<Rightarrow>
                    Some (case thrown of None \<Rightarrow> Finished | Some e \<Rightarrow> Fatal e, rows', entries, dispatched))))"
proof (intro conjI impI)
  let ?query = "getAccessStatuses JSON_parse create substances"
  assume f: "k * batchSize < length countries
      \<and> ?query (take batchSize (drop (k * batchSize) countries)) = Inl err"
  then have "0 + k * batchSize < length countries"
    and "?query (slice countries (0 + k * batchSize) (0 + k * batchSize + batchSize)) = Inl err"
    by (simp_all add: slice_def)
  with assms obtain err' dispatched where
    "main_loop ?query countries batchSize 0 [] [] = Some (Inl err', dispatched)"
    using main_loop_aborts by blast
  then have "main_with JSON_parse create env substances countries batchSize rows =
      Some (Fatal err', rows, [], dispatched)"
    by (simp add: main_with_def)
  then show "\<exists>err' dispatched.
      main_with JSON_parse create env substances countries batchSize rows =
        Some (Fatal err', rows, [], dispatched)"
    by blast
next
  let ?query = "getAccessStatuses JSON_parse create substances"
  let ?batch = "\<lambda>k. slice countries (0 + k * batchSize) (0 + k * batchSize + batchSize)"
  assume a: "\<forall>k. k * batchSize < length countries \<longrightarrow>
      (\<exists>results. ?query (take batchSize (drop (k * batchSize) countries)) = Inr results)"
  have batch: "\<And>k. ?batch k = take batchSize (drop (k * batchSize) countries)"
    by (simp add: slice_def)
  have ok: "\<forall>k. 0 + k * batchSize < length countries \<longrightarrow>
      (\<exists>results. ?query (slice countries (0 + k * batchSize) (0 + k * batchSize + batchSize)) = Inr results)"
    using a by (simp add: slice_def)
  have "main_loop ?query countries batchSize 0 [] [] =
      Some (Inr ([] @ concat (map (\<lambda>k. projr (?query (?batch k))) [0..<(length countries - 0 + batchSize - 1) div batchSize])),
            [] @ map ?batch [0..<(length countries - 0 + batchSize - 1) div batchSize])"
    using assms ok by (rule main_loop_collects)
  then have "main_loop ?query countries batchSize 0 [] [] =
      Some (Inr (concat (map (\<lambda>k. projr (?query (take batchSize (drop (k * batchSize) countries))))
                   [0..<(length countries + batchSize - 1) div batchSize])),
            map ?batch [0..<(length countries + batchSize - 1) div batchSize])"
    using batch by simp
  then have "main_with JSON_parse create env substances countries batchSize rows =
      (case upsertRecords env rows
              (concat (map (\<lambda>k. projr (?query (take batchSize (drop (k * batchSize) countries))))
                 [0..<(length countries + batchSize - 1) div batchSize])) of
         (rows', entries, thrown) \<Rightarrow>
           Some (case thrown of None \<Rightarrow> Finished | Some e \<Rightarrow> Fatal e, rows', entries,
                 map ?batch [0..<(length countries + batchSize - 1) div batchSize]))"
    by (simp add: main_with_def split: prod.splits option.splits)
  then show "\<exists>dispatched.
      main_with JSON_parse create env substances countries batchSize rows =
        (case upsertRecords env rows
                (concat (map (\<lambda>k. projr (?query (take batchSize (drop (k * batchSize) countries))))
                   [0..<(length countries + batchSize - 1) div batchSize])) of
           (rows', entries, thrown) \<Rightarrow>
             Some (case thrown of None \<Rightarrow> Finished | Some e \<Rightarrow> Fatal e, rows', entries, dispatched))"
    by blast
qed

lemma rejected_query:
  "getAccessStatuses sample_parse (rejects batch) substances batch =
     Inl (OracleError (ApiError (Some 400) ''bad request''))"
  by (simp add: getAccessStatuses_def rejects_def withRetry_def withRetry_loop.simps retryable_def)

theorem fatal_before_reconciliation_witness:
  "(\<exists>err' dispatched.
      main_with sample_parse (rejects [''MX'']) no_faults SUBSTANCES [''US'', ''CA'', ''MX''] 2 [] =
        Some (Fatal err', [], [], dispatched))
   \<and> (\<exists>dispatched.
      main_with sample_parse (reply_with bare_reply) no_faults SUBSTANCES [''US'', ''CA'', ''MX''] 2 [] =
        Some (Finished, [ketamine_us_row ''Banned'' 1000],
              [Inserted (Val (JStr ''Ketamine'')) (Val (JStr ''US'')) (Val (JStr ''Banned'')),
               Skipped (Val (JStr ''Ketamine'')) (Val (JStr ''US''))], dispatched))"
proof (intro conjI)
  have two: "0 < (2::nat)" by simp
  show "\<exists>err' dispatched.
      main_with sample_parse (rejects [''MX'']) no_faults SUBSTANCES [''US'', ''CA'', ''MX''] 2 [] =
        Some (Fatal err', [], [], dispatched)"
    using fatal_before_reconciliation [OF two, where k = 1 and countries = "[''US'', ''CA'', ''MX'']"
        and JSON_parse = sample_parse and create = "rejects [''MX'']" and substances = SUBSTANCES
        and err = "OracleError (ApiError (Some 400) ''bad request'')" and env = no_faults and rows = "[]"]
    by (simp add: rejected_query)
  have n: "[0..<(length [''US'', ''CA'', ''MX''] + 2 - 1) div 2] = [0, 1::nat]"
    by (simp add: upt_conv_Cons)
  have run: "upsertRecords no_faults [] [ketamine_us_banned, ketamine_us_banned] =
      ([ketamine_us_row ''Banned'' 1000],
       [Inserted (Val (JStr ''Ketamine'')) (Val (JStr ''US'')) (Val (JStr ''Banned'')),
        Skipped (Val (JStr ''Ketamine'')) (Val (JStr ''US''))], None)"
    by (simp add: sample_defs store_defs)
  show "\<exists>dispatched.
      main_with sample_parse (reply_with bare_reply) no_faults SUBSTANCES [''US'', ''CA'', ''MX''] 2 [] =
        Some (Finished, [ketamine_us_row ''Banned'' 1000],
              [Inserted (Val (JStr ''Ketamine'')) (Val (JStr ''US'')) (Val (JStr ''Banned'')),
               Skipped (Val (JStr ''Ketamine'')) (Val (JStr ''US''))], dispatched)"
    using fatal_before_reconciliation [OF two, where countries = "[''US'', ''CA'', ''MX'']"
        and JSON_parse = sample_parse and create = "reply_with bare_reply" and substances = SUBSTANCES
        and env = no_faults and rows = "[]"]
    unfolding n by (simp add: sample_query run del: upsertRecords.simps)
qed

text \<open>
  The rest of the order of checks in the reply handling, for every parsed value other than
  \<^verbatim>\<open>null\<close>: an absent or empty content is the empty-response error; a text that does not
  parse is the parse error, carrying the first 200 characters; an array is returned; any
  other value yields the first array among its \<^verbatim>\<open>Object.values\<close>, and the
  expected-array error when there is none.
\<close>

theorem reply_handling_order:
  "handle_reply JSON_parse None = Inl EmptyResponse
   \<and> handle_reply JSON_parse (Some []) = Inl EmptyResponse
   \<and> (raw \<noteq> [] \<and> JSON_parse raw = None \<longrightarrow>
        handle_reply JSON_parse (Some raw) = Inl (ParseFailure (take 200 raw)))
   \<and> (raw \<noteq> [] \<and> JSON_parse raw = Some (JArr xs) \<longrightarrow>
        handle_reply JSON_parse (Some raw) = Inr xs)
   \<and> (raw \<noteq> [] \<and> JSON_parse raw = Some parsed \<and> \<not> isArray parsed \<and> parsed \<noteq> JNull \<longrightarrow>
        (\<exists>vs. Object_values parsed = Inr vs
           \<and> (find isArray vs = None \<longrightarrow>
                 handle_reply JSON_parse (Some raw) = Inl (ExpectedArray parsed))
           \<and> (\<forall>ys. find isArray vs = Some (JArr ys) \<longrightarrow>
                 handle_reply JSON_parse (Some raw) = Inr ys)))"
  by (auto simp add: handle_reply_def isArray_def Object_values_def split: json.splits)

theorem reply_handling_order_witness:
  "handle_reply sample_parse None = Inl EmptyResponse
   \<and> handle_reply sample_parse (Some []) = Inl EmptyResponse
   \<and> handle_reply sample_parse (Some ''oops'') = Inl (ParseFailure ''oops'')
   \<and> handle_reply sample_parse (Some bare_reply) = Inr [ketamine_us_banned]
   \<and> handle_reply sample_parse (Some ''{}'') = Inl (ExpectedArray (JObj []))
   \<and> handle_reply sample_parse (Some wrapped_reply) = Inr [ketamine_us_banned]"
proof -
  have p: "sample_parse ''oops'' = None" "sample_parse bare_reply = Some (JArr [ketamine_us_banned])"
    "sample_parse ''{}'' = Some (JObj [])"
    "sample_parse wrapped_reply = Some (JObj [(''results'', JArr [ketamine_us_banned])])"
    "bare_reply \<noteq> []" "wrapped_reply \<noteq> []"
    by (simp_all add: sample_parse_def bare_reply_def wrapped_reply_def)
  have a: "handle_reply sample_parse (Some ''oops'') = Inl (ParseFailure ''oops'')"
    using reply_handling_order [where JSON_parse = sample_parse and raw = "''oops''"] p by simp
  have b: "handle_reply sample_parse (Some bare_reply) = Inr [ketamine_us_banned]"
    using reply_handling_order [where JSON_parse = sample_parse and raw = bare_reply
        and xs = "[ketamine_us_banned]"] p by simp
  have c: "handle_reply sample_parse (Some ''{}'') = Inl (ExpectedArray (JObj []))"
    using reply_handling_order [where JSON_parse = sample_parse and raw = "''{}''"
        and parsed = "JObj []"] p by (simp add: isArray_def Object_values_def)
  have d: "handle_reply sample_parse (Some wrapped_reply) = Inr [ketamine_us_banned]"
    using reply_handling_order [where JSON_parse = sample_parse and raw = wrapped_reply
        and parsed = "JObj [(''results'', JArr [ketamine_us_banned])]"] p
    by (simp add: isArray_def Object_values_def)
  show ?thesis
    using reply_handling_order [where JSON_parse = sample_parse] a b c d by simp
qed

text \<open>
  The catalog holds 194 codes, so \<^verbatim>\<open>main\<close>, with its batch size of 25, plans 8 batches.
\<close>

theorem COUNTRIES_batches:
  "length COUNTRIES = 194 \<and> (length COUNTRIES + 25 - 1) div 25 = 8"
  by (simp add: COUNTRIES_def)

end
